theory Spec2Isabelle
  imports Complex_Main
begin

section \<open>Values\<close>

text \<open>
  The simulation engine of \<^verbatim>\<open>src/simulation/world.py\<close>. Python floats are read as
  real numbers, \<^verbatim>\<open>vmath.Vector2\<close> as a pair of reals, and a \<^verbatim>\<open>dict\<close> as an
  association list in insertion order with unique keys.
\<close>

type_synonym Vector2 = "real \<times> real"

type_synonym AgentID = int

datatype error = KeyError | ZeroDivisionError | Fault string

definition vsub :: "Vector2 \<Rightarrow> Vector2 \<Rightarrow> Vector2" where
  "vsub a b = (fst a - fst b, snd a - snd b)"

definition vadd :: "Vector2 \<Rightarrow> Vector2 \<Rightarrow> Vector2" where
  "vadd a b = (fst a + fst b, snd a + snd b)"

definition vlength :: "Vector2 \<Rightarrow> real" where
  "vlength v = sqrt ((fst v)\<^sup>2 + (snd v)\<^sup>2)"

text \<open>
  \<^verbatim>\<open>Vector2.as_length\<close> of the vectormath library: a copy of the vector scaled to the
  given length; a vector of length 0 cannot be resized and raises.
\<close>

definition as_length :: "Vector2 \<Rightarrow> real \<Rightarrow> error + Vector2" where
  "as_length v l =
     (if vlength v = 0 then Inl ZeroDivisionError
      else Inr (fst v * (l / vlength v), snd v * (l / vlength v)))"

text \<open>\<^verbatim>\<open>TICK_RATE = 20\<close> and \<^verbatim>\<open>TIME_PER_TICK = 1.0 / TICK_RATE\<close>.\<close>

definition TICK_RATE :: real where
  "TICK_RATE = 20"

definition TIME_PER_TICK :: real where
  "TIME_PER_TICK = 1 / TICK_RATE"

section \<open>Messages, noise events, agents, the map\<close>

record Message =
  msg_source :: AgentID
  msg_target :: AgentID
  msg_text :: string

text \<open>\<^verbatim>\<open>NoiseEvent(location, source=None, radius=5/2)\<close>, with \<^verbatim>\<open>time = 0\<close>.\<close>

record NoiseEvent =
  time :: int
  noise_location :: Vector2
  noise_source :: "AgentID option"
  radius :: real

definition NoiseEvent_init :: "Vector2 \<Rightarrow> NoiseEvent" where
  "NoiseEvent_init p =
     \<lparr>time = 0, noise_location = p, noise_source = None, radius = 5 / 2\<rparr>"

datatype agent_class = GuardAgent | IntruderAgent | PlainAgent

text \<open>
  Modelled from the spec: the classes \<^verbatim>\<open>Agent\<close>, \<^verbatim>\<open>GuardAgent\<close> and \<^verbatim>\<open>IntruderAgent\<close>
  of \<^verbatim>\<open>simulation/agent.py\<close> are not among the sources. The record holds the fields
  that \<^verbatim>\<open>world.py\<close> reads and writes; \<open>cls\<close> is what \<^verbatim>\<open>isinstance\<close> tests. The last six
  fields are the intruder-only state.
\<close>

record Agent =
  cls :: agent_class
  location :: Vector2
  heading :: real
  view_range :: real
  view_angle :: real
  agent_width :: real
  has_collided :: bool
  message_queue_in :: "Message list"
  target :: Vector2
  is_captured :: bool
  reached_target :: bool
  ticks_in_target :: real
  ticks_since_target :: real
  times_visited_target :: real

text \<open>
  Modelled from the spec: the class \<^verbatim>\<open>Map\<close> of \<^verbatim>\<open>simulation/environment.py\<close> is not
  among the sources. \<^verbatim>\<open>world.py\<close> uses its \<^verbatim>\<open>width\<close>, \<^verbatim>\<open>height\<close>, \<^verbatim>\<open>size\<close> and
  \<^verbatim>\<open>is_wall(x, y)\<close>, which are taken as they come.
\<close>

record Map =
  width :: int
  height :: int
  map_size :: "int \<times> int"
  is_wall :: "int \<Rightarrow> int \<Rightarrow> bool"

text \<open>
  What the engine tells the outside: the two \<^verbatim>\<open>print\<close> calls of \<^verbatim>\<open>tick\<close> and the
  notifications \<^verbatim>\<open>on_captured()\<close> and \<^verbatim>\<open>on_reached_target()\<close> it invokes on an
  intruder, in the order they happen.
\<close>

datatype event = Print string | OnCaptured AgentID | OnReachedTarget AgentID

record World =
  world_map :: Map
  agents :: "(AgentID \<times> Agent) list"
  noises :: "NoiseEvent list"
  old_noises :: "NoiseEvent list"
  time_ticks :: int
  trace :: "event list"

definition guards :: "World \<Rightarrow> (AgentID \<times> Agent) list" where
  "guards w = filter (\<lambda>(ID, agent). cls agent = GuardAgent) (agents w)"

definition intruders :: "World \<Rightarrow> (AgentID \<times> Agent) list" where
  "intruders w = filter (\<lambda>(ID, agent). cls agent = IntruderAgent) (agents w)"

section \<open>The target check\<close>

text \<open>
  The body of the loop of \<^verbatim>\<open>_target_check\<close> for one intruder, in two halves: the
  counters, then the two win types. The second half returns the notifications it
  invoked.
\<close>

definition target_counters :: "Agent \<Rightarrow> Agent" where
  "target_counters intruder =
     (if vlength (vsub (location intruder) (target intruder)) < 0.5 then
        (let i1 =
           (if ticks_in_target intruder = 0 then
              (let i0 =
                 (if ticks_since_target intruder * TIME_PER_TICK \<ge> 3
                     \<or> times_visited_target intruder = 0
                  then intruder\<lparr>times_visited_target := times_visited_target intruder + 1\<rparr>
                  else intruder)
               in i0\<lparr>ticks_since_target := 0\<rparr>)
            else intruder)
         in i1\<lparr>ticks_in_target := ticks_in_target i1 + 1\<rparr>)
      else if ticks_in_target intruder > 0 then
        intruder\<lparr>ticks_since_target := ticks_since_target intruder + 1,
                 ticks_in_target := 0\<rparr>
      else if ticks_since_target intruder > 0 then
        intruder\<lparr>ticks_since_target := ticks_since_target intruder + 1\<rparr>
      else intruder)"

definition target_wins :: "AgentID \<Rightarrow> Agent \<Rightarrow> Agent \<times> event list" where
  "target_wins ID intruder =
     (if ticks_in_target intruder * TIME_PER_TICK \<ge> 3 then
        (intruder\<lparr>reached_target := True\<rparr>, [OnReachedTarget ID])
      else if times_visited_target intruder \<ge> 2 then
        (intruder\<lparr>reached_target := True\<rparr>, [])
      else (intruder, []))"

definition target_intruder :: "AgentID \<Rightarrow> Agent \<Rightarrow> Agent \<times> event list" where
  "target_intruder ID intruder = target_wins ID (target_counters intruder)"

fun target_loop :: "(AgentID \<times> Agent) list \<Rightarrow> (AgentID \<times> Agent) list \<times> event list" where
  "target_loop [] = ([], [])"
| "target_loop ((ID, agent) # rest) =
     (if cls agent = IntruderAgent then
        (let (agent', ev) = target_intruder ID agent;
             (rest', ev') = target_loop rest
         in ((ID, agent') # rest', ev @ ev'))
      else
        (let (rest', ev') = target_loop rest
         in ((ID, agent) # rest', ev')))"

definition target_check :: "World \<Rightarrow> bool \<times> World" where
  "target_check w =
     (let (ags, ev) = target_loop (agents w);
          w' = w\<lparr>agents := ags, trace := trace w @ ev\<rparr>
      in (list_all (\<lambda>(ID, intruder). reached_target intruder) (intruders w'), w'))"

section \<open>The capture check\<close>

text \<open>
  The inner loop of \<^verbatim>\<open>_capture_check\<close>: one intruder against every guard, in the
  order of the guards. Each guard closer than 0.5 sets \<^verbatim>\<open>is_captured\<close> and invokes
  \<^verbatim>\<open>on_captured()\<close>.
\<close>

fun capture_pairs :: "(AgentID \<times> Agent) list \<Rightarrow> AgentID \<Rightarrow> Agent \<Rightarrow> Agent \<times> event list" where
  "capture_pairs [] ID intruder = (intruder, [])"
| "capture_pairs ((ID_guard, guard) # gs) ID intruder =
     (if vlength (vsub (location intruder) (location guard)) < 0.5 then
        (let (intruder', ev) = capture_pairs gs ID (intruder\<lparr>is_captured := True\<rparr>)
         in (intruder', OnCaptured ID # ev))
      else capture_pairs gs ID intruder)"

fun capture_loop ::
  "(AgentID \<times> Agent) list \<Rightarrow> (AgentID \<times> Agent) list \<Rightarrow> (AgentID \<times> Agent) list \<times> event list" where
  "capture_loop gs [] = ([], [])"
| "capture_loop gs ((ID, agent) # rest) =
     (if cls agent = IntruderAgent then
        (let (agent', ev) = capture_pairs gs ID agent;
             (rest', ev') = capture_loop gs rest
         in ((ID, agent') # rest', ev @ ev'))
      else
        (let (rest', ev') = capture_loop gs rest
         in ((ID, agent) # rest', ev')))"

definition capture_check :: "World \<Rightarrow> bool \<times> World" where
  "capture_check w =
     (let (ags, ev) = capture_loop (guards w) (agents w);
          w' = w\<lparr>agents := ags, trace := trace w @ ev\<rparr>
      in (list_all (\<lambda>(ID, intruder). is_captured intruder) (intruders w'), w'))"

section \<open>Collision resolution\<close>

definition collision_point :: "Map \<Rightarrow> real \<Rightarrow> real \<Rightarrow> Vector2 option" where
  "collision_point m x y =
     (let xi = \<lfloor>x\<rfloor>; yi = \<lfloor>y\<rfloor>
      in if is_wall m xi yi then Some (of_int xi + 0.5, of_int yi + 0.5) else None)"

text \<open>
  \<^verbatim>\<open>circle_collision(x, y, r=0.5)\<close> reads the agent's current location and width; it
  returns nothing when the cell is no wall or the agent is far enough from its centre.
\<close>

definition circle_collision :: "Map \<Rightarrow> Agent \<Rightarrow> real \<Rightarrow> real \<Rightarrow> error + Vector2 option" where
  "circle_collision m agent x y =
     (let xi = \<lfloor>x\<rfloor>; yi = \<lfloor>y\<rfloor>; r = 0.5; w = agent_width agent
      in if is_wall m xi yi then
           (let center = (of_int xi + 0.5, of_int yi + 0.5)
            in if vlength (vsub (location agent) center) < r + w / 2 then
                 (case as_length (vsub (location agent) center) (r + w / 2) of
                    Inl e \<Rightarrow> Inl e
                  | Inr v \<Rightarrow> Inr (Some (vadd center v)))
               else Inr None)
         else Inr None)"

text \<open>The bounds check at the head of the loop body: four tests, one after the other.\<close>

definition clamp_bounds :: "Map \<Rightarrow> Agent \<Rightarrow> Agent" where
  "clamp_bounds m agent =
     (let x0 = fst (location agent); y0 = snd (location agent);
          x1 = (if x0 < 0 then 0 else x0);
          y1 = (if y0 < 0 then 0 else y0);
          x2 = (if x1 \<ge> of_int (width m) then of_int (width m) - 0.01 else x1);
          y2 = (if y1 \<ge> of_int (height m) then of_int (height m) - 0.01 else y1)
      in agent\<lparr>location := (x2, y2)\<rparr>)"

text \<open>
  The four edge probes (left, right, bottom, top) and the push they add up to, applied
  to the location once.
\<close>

definition edge_push :: "Map \<Rightarrow> Agent \<Rightarrow> Agent" where
  "edge_push m agent =
     (let w = agent_width agent; x = fst (location agent); y = snd (location agent);
          left = collision_point m (x - w / 2) y;
          right = collision_point m (x + w / 2) y;
          bottom = collision_point m x (y - w / 2);
          top = collision_point m x (y + w / 2);
          push_x =
            (case left of None \<Rightarrow> 0 | Some c \<Rightarrow> fst c + (0.5 + w / 2) - x)
            + (case right of None \<Rightarrow> 0 | Some c \<Rightarrow> fst c - (0.5 + w / 2) - x);
          push_y =
            (case bottom of None \<Rightarrow> 0 | Some c \<Rightarrow> snd c + (0.5 + w / 2) - y)
            + (case top of None \<Rightarrow> 0 | Some c \<Rightarrow> snd c - (0.5 + w / 2) - y)
      in agent\<lparr>location := vadd (location agent) (push_x, push_y),
               has_collided := (has_collided agent \<or> left \<noteq> None \<or> right \<noteq> None
                                \<or> bottom \<noteq> None \<or> top \<noteq> None)\<rparr>)"

text \<open>
  One corner probe: on a hit the agent is put on the circle around the cell's centre.
  An exception leaves the agent as it is at that moment.
\<close>

definition corner_step :: "Map \<Rightarrow> real \<Rightarrow> real \<Rightarrow> Agent \<Rightarrow> (error \<times> Agent) + Agent" where
  "corner_step m x y agent =
     (case circle_collision m agent x y of
        Inl e \<Rightarrow> Inl (e, agent)
      | Inr None \<Rightarrow> Inr agent
      | Inr (Some c) \<Rightarrow> Inr (agent\<lparr>location := c, has_collided := True\<rparr>))"

text \<open>
  The loop body of \<^verbatim>\<open>_collision_check\<close> for one agent. The probes use \<^verbatim>\<open>x\<close>, \<^verbatim>\<open>y\<close> and
  \<^verbatim>\<open>width\<close> as read after the bounds check.
\<close>

definition collide_agent :: "Map \<Rightarrow> Agent \<Rightarrow> (error \<times> Agent) + Agent" where
  "collide_agent m agent0 =
     (let agent = clamp_bounds m agent0;
          w = agent_width agent; x = fst (location agent); y = snd (location agent);
          a1 = edge_push m agent
      in case corner_step m (x - w / 2) (y - w / 2) a1 of
           Inl e \<Rightarrow> Inl e
         | Inr a2 \<Rightarrow>
       (case corner_step m (x - w / 2) (y + w / 2) a2 of
           Inl e \<Rightarrow> Inl e
         | Inr a3 \<Rightarrow>
       (case corner_step m (x + w / 2) (y - w / 2) a3 of
           Inl e \<Rightarrow> Inl e
         | Inr a4 \<Rightarrow> corner_step m (x + w / 2) (y + w / 2) a4)))"

fun collision_loop ::
  "Map \<Rightarrow> (AgentID \<times> Agent) list \<Rightarrow> (error \<times> (AgentID \<times> Agent) list) + (AgentID \<times> Agent) list" where
  "collision_loop m [] = Inr []"
| "collision_loop m ((ID, agent) # rest) =
     (case collide_agent m agent of
        Inl (e, agent') \<Rightarrow> Inl (e, (ID, agent') # rest)
      | Inr agent' \<Rightarrow>
          (case collision_loop m rest of
             Inl (e, rest') \<Rightarrow> Inl (e, (ID, agent') # rest')
           | Inr rest' \<Rightarrow> Inr ((ID, agent') # rest')))"

text \<open>
  A procedure of the world returns the world it leaves behind, or the exception it
  raised together with the world as it was at that moment.
\<close>

definition collision_check :: "World \<Rightarrow> (error \<times> World) + World" where
  "collision_check w =
     (case collision_loop (world_map w) (agents w) of
        Inl (e, ags) \<Rightarrow> Inl (e, w\<lparr>agents := ags\<rparr>)
      | Inr ags \<Rightarrow> Inr (w\<lparr>agents := ags\<rparr>))"

section \<open>Messages\<close>

text \<open>
  \<^verbatim>\<open>self.agents[message.target]._message_queue_in.append(message)\<close>: the lookup of a
  missing key raises \<^verbatim>\<open>KeyError\<close> before anything is appended.
\<close>

definition transmit_message :: "World \<Rightarrow> Message \<Rightarrow> (error \<times> World) + World" where
  "transmit_message w message =
     (case map_of (agents w) (msg_target message) of
        None \<Rightarrow> Inl (KeyError, w)
      | Some agent \<Rightarrow>
          Inr (w\<lparr>agents :=
                 map (\<lambda>(ID, a). if ID = msg_target message
                                 then (ID, a\<lparr>message_queue_in := message_queue_in a @ [message]\<rparr>)
                                 else (ID, a))
                     (agents w)\<rparr>))"

fun transmit_all :: "World \<Rightarrow> Message list \<Rightarrow> (error \<times> World) + World" where
  "transmit_all w [] = Inr w"
| "transmit_all w (message # ms) =
     (case transmit_message w message of
        Inl e \<Rightarrow> Inl e
      | Inr w' \<Rightarrow> transmit_all w' ms)"

section \<open>Vision\<close>

definition degrees :: "real \<Rightarrow> real" where
  "degrees r = r * 180 / pi"

text \<open>\<^verbatim>\<open>math.atan2(y, x)\<close>: the angle of the point \<open>(x, y)\<close>, in \<open>(-pi, pi]\<close>.\<close>

definition atan2 :: "real \<Rightarrow> real \<Rightarrow> real" where
  "atan2 y x =
     (if x > 0 then arctan (y / x)
      else if x < 0 \<and> y \<ge> 0 then arctan (y / x) + pi
      else if x < 0 then arctan (y / x) - pi
      else if y > 0 then pi / 2
      else if y < 0 then - pi / 2
      else 0)"

text \<open>Python's \<^verbatim>\<open>%\<close> on floats, for a positive right operand: the result is in \<open>[0, b)\<close>.\<close>

definition fmod :: "real \<Rightarrow> real \<Rightarrow> real" where
  "fmod a b = a - b * of_int \<lfloor>a / b\<rfloor>"

definition angle_diff :: "Agent \<Rightarrow> Vector2 \<Rightarrow> real" where
  "angle_diff agent d =
     \<bar>fmod (- degrees (atan2 (snd d) (fst d)) + 90 - heading agent + 180) 360 - 180\<bar>"

definition sees :: "Agent \<Rightarrow> Agent \<Rightarrow> bool" where
  "sees agent other_agent =
     (let d = vsub (location other_agent) (location agent)
      in (vlength d \<le> view_range agent \<and> angle_diff agent d \<le> view_angle agent)
         \<or> vlength d \<le> 1.5)"

text \<open>
  Modelled from the spec: \<^verbatim>\<open>simulation.vision.AgentView\<close> is not among the sources; a
  view stands for the agent it was made from.
\<close>

datatype AgentView = AgentView AgentID Agent

definition visible_agents :: "(AgentID \<times> Agent) list \<Rightarrow> AgentID \<Rightarrow> Agent \<Rightarrow> AgentView list" where
  "visible_agents ags ID agent =
     map (\<lambda>(other_ID, other_agent). AgentView other_ID other_agent)
         (filter (\<lambda>(other_ID, other_agent). other_ID \<noteq> ID \<and> sees agent other_agent) ags)"

section \<open>Noise\<close>

definition add_noise :: "World \<Rightarrow> NoiseEvent \<Rightarrow> World" where
  "add_noise w noise = w\<lparr>noises := noises w @ [noise\<lparr>time := time_ticks w\<rparr>]\<rparr>"

text \<open>
  The three draws of \<^verbatim>\<open>emit_random_noise\<close> from the random number generator are an
  input of the tick: \<^verbatim>\<open>random.uniform(0, 1)\<close> and the two \<^verbatim>\<open>random.randint\<close>.
\<close>

record Random =
  uniform :: real
  randint_x :: int
  randint_y :: int

definition emit_random_noise :: "Random \<Rightarrow> World \<Rightarrow> World" where
  "emit_random_noise rnd w =
     (let event_rate = 10;
          random_events_per_second =
            (event_rate / 60)
            * (of_int (fst (map_size (world_map w))) * of_int (snd (map_size (world_map w))) / 25);
          chance_to_emit = random_events_per_second * TIME_PER_TICK
      in if uniform rnd < chance_to_emit then
           add_noise w (NoiseEvent_init (of_int (randint_x rnd), of_int (randint_y rnd)))
         else w)"

section \<open>The tick\<close>

text \<open>
  Modelled from the spec: \<^verbatim>\<open>Agent.tick(seen_agents)\<close> and \<^verbatim>\<open>Agent.on_noise(noises)\<close> of
  \<^verbatim>\<open>simulation/agent.py\<close> are not among the sources. By the callback contract an agent
  changes its own state and sends messages; it may also raise. A call gives the agent's
  new state, the messages it sent, in order, and the exception it ended with, if any.
  The class of an agent object does not change.
\<close>

record behaviour =
  agent_tick :: "AgentID \<Rightarrow> AgentView list \<Rightarrow> Agent \<Rightarrow> Agent \<times> Message list \<times> error option"
  agent_on_noise :: "AgentID \<Rightarrow> NoiseEvent list \<Rightarrow> Agent \<Rightarrow> Agent \<times> error option"

definition set_agent :: "AgentID \<Rightarrow> Agent \<Rightarrow> World \<Rightarrow> World" where
  "set_agent ID agent w =
     w\<lparr>agents := map (\<lambda>(k, a). if k = ID then (k, agent) else (k, a)) (agents w)\<rparr>"

text \<open>
  The first loop of \<^verbatim>\<open>tick\<close>, over the keys of the agent dictionary: each agent sees
  the others as they are when its turn comes, then runs.
\<close>

fun agents_loop :: "behaviour \<Rightarrow> AgentID list \<Rightarrow> World \<Rightarrow> (error \<times> World) + World" where
  "agents_loop cb [] w = Inr w"
| "agents_loop cb (ID # IDs) w =
     (case map_of (agents w) ID of
        None \<Rightarrow> agents_loop cb IDs w
      | Some agent \<Rightarrow>
          (let seen_agents = visible_agents (agents w) ID agent;
               (agent', outbox, raised) = agent_tick cb ID seen_agents agent;
               w1 = set_agent ID (agent'\<lparr>cls := cls agent\<rparr>) w
           in case transmit_all w1 outbox of
                Inl e \<Rightarrow> Inl e
              | Inr w2 \<Rightarrow>
                  (case raised of
                     Some e \<Rightarrow> Inl (e, w2)
                   | None \<Rightarrow> agents_loop cb IDs w2)))"

fun noise_loop :: "behaviour \<Rightarrow> AgentID list \<Rightarrow> World \<Rightarrow> (error \<times> World) + World" where
  "noise_loop cb [] w = Inr w"
| "noise_loop cb (ID # IDs) w =
     (case map_of (agents w) ID of
        None \<Rightarrow> noise_loop cb IDs w
      | Some agent \<Rightarrow>
          (let (agent', raised) = agent_on_noise cb ID (noises w) agent;
               w1 = set_agent ID (agent'\<lparr>cls := cls agent\<rparr>) w
           in case raised of
                Some e \<Rightarrow> Inl (e, w1)
              | None \<Rightarrow> noise_loop cb IDs w1))"

text \<open>
  \<^verbatim>\<open>tick\<close> up to the call of \<^verbatim>\<open>_capture_check\<close>: the noise lists, the random noise,
  the agents' turns, collision resolution, the noise handlers.
\<close>

definition roll_noises :: "World \<Rightarrow> World" where
  "roll_noises w = w\<lparr>old_noises := old_noises w @ noises w, noises := []\<rparr>"

definition tick_run :: "behaviour \<Rightarrow> Random \<Rightarrow> World \<Rightarrow> (error \<times> World) + World" where
  "tick_run cb rnd w =
     (let w1 = roll_noises w;
          w2 = emit_random_noise rnd w1
      in case agents_loop cb (map fst (agents w2)) w2 of
           Inl e \<Rightarrow> Inl e
         | Inr w3 \<Rightarrow>
       (case collision_check w3 of
           Inl e \<Rightarrow> Inl e
         | Inr w4 \<Rightarrow> noise_loop cb (map fst (agents w4)) w4))"

definition print :: "string \<Rightarrow> World \<Rightarrow> World" where
  "print s w = w\<lparr>trace := trace w @ [Print s]\<rparr>"

text \<open>\<^verbatim>\<open>tick\<close> from the capture check on, and the whole of it.\<close>

definition tick_checks :: "World \<Rightarrow> bool \<times> World" where
  "tick_checks w =
     (let (all_captured, w1) = capture_check w
      in if all_captured then (True, print ''The guards won!'' w1)
         else
           (let (all_reached_target, w2) = target_check w1
            in if all_reached_target then (True, print ''The intruders won!'' w2)
               else
                 (let w3 = w2\<lparr>time_ticks := time_ticks w2 + 1\<rparr>
                  in if all_captured then (True, w3) else (False, w3))))"

definition tick :: "behaviour \<Rightarrow> Random \<Rightarrow> World \<Rightarrow> (error \<times> World) + (bool \<times> World)" where
  "tick cb rnd w =
     (case tick_run cb rnd w of
        Inl e \<Rightarrow> Inl e
      | Inr w' \<Rightarrow> Inr (tick_checks w'))"

section \<open>Runs and predicates used in the statements\<close>

text \<open>
  The target check of one intruder on consecutive ticks, the intruder being at the
  given position on each of them; the notifications of all these ticks, in order.
\<close>

fun stay :: "AgentID \<Rightarrow> Vector2 list \<Rightarrow> Agent \<Rightarrow> Agent \<times> event list" where
  "stay ID [] intruder = (intruder, [])"
| "stay ID (p # ps) intruder =
     (let (i1, ev) = target_intruder ID (intruder\<lparr>location := p\<rparr>);
          (i2, ev') = stay ID ps i1
      in (i2, ev @ ev'))"

definition in_bounds :: "Map \<Rightarrow> Vector2 \<Rightarrow> bool" where
  "in_bounds m p =
     (0 \<le> fst p \<and> fst p < of_int (width m) \<and> 0 \<le> snd p \<and> snd p < of_int (height m))"

definition cell_is_wall :: "Map \<Rightarrow> real \<Rightarrow> real \<Rightarrow> bool" where
  "cell_is_wall m x y = is_wall m \<lfloor>x\<rfloor> \<lfloor>y\<rfloor>"

text \<open>The four edge probes and the four corner probes of an agent all fall in cells that are no walls.\<close>

definition probes_clear :: "Map \<Rightarrow> Agent \<Rightarrow> bool" where
  "probes_clear m agent =
     (let w = agent_width agent; x = fst (location agent); y = snd (location agent)
      in \<not> cell_is_wall m (x - w / 2) y \<and> \<not> cell_is_wall m (x + w / 2) y
         \<and> \<not> cell_is_wall m x (y - w / 2) \<and> \<not> cell_is_wall m x (y + w / 2)
         \<and> \<not> cell_is_wall m (x - w / 2) (y - w / 2) \<and> \<not> cell_is_wall m (x - w / 2) (y + w / 2)
         \<and> \<not> cell_is_wall m (x + w / 2) (y - w / 2) \<and> \<not> cell_is_wall m (x + w / 2) (y + w / 2))"

text \<open>
  The world a procedure leaves behind, whether it returned or raised; and what the
  target check keeps of an intruder.
\<close>

definition world_after :: "(error \<times> World) + World \<Rightarrow> World" where
  "world_after r = (case r of Inl (e, w) \<Rightarrow> w | Inr w \<Rightarrow> w)"

definition world_after_tick :: "(error \<times> World) + (bool \<times> World) \<Rightarrow> World" where
  "world_after_tick r = (case r of Inl (e, w) \<Rightarrow> w | Inr (finished, w) \<Rightarrow> w)"

definition target_state :: "Agent \<Rightarrow> real \<times> real \<times> real \<times> bool" where
  "target_state a =
     (ticks_in_target a, ticks_since_target a, times_visited_target a, reached_target a)"

text \<open>Everything of a world but its agents.\<close>

definition surroundings :: "World \<Rightarrow> Map \<times> NoiseEvent list \<times> NoiseEvent list \<times> int \<times> event list" where
  "surroundings w = (world_map w, noises w, old_noises w, time_ticks w, trace w)"

text \<open>
  The bearing of a direction in degrees, clockwise from the positive y axis: the
  convention in which \<^verbatim>\<open>tick\<close> compares it with an agent's heading.
\<close>

definition bearing :: "Vector2 \<Rightarrow> real" where
  "bearing d = 90 - degrees (atan2 (snd d) (fst d))"

section \<open>Concrete agents, maps and worlds\<close>

text \<open>An intruder that sits on its target point, and a guard 0.2 away from it.\<close>

definition intruder0 :: Agent where
  "intruder0 =
     \<lparr>cls = IntruderAgent, location = (1.2, 1), heading = 0, view_range = 6, view_angle = 45,
      agent_width = 0.5, has_collided = False, message_queue_in = [], target = (1.2, 1),
      is_captured = False, reached_target = False, ticks_in_target = 0,
      ticks_since_target = 0, times_visited_target = 0\<rparr>"

definition guard0 :: Agent where
  "guard0 =
     \<lparr>cls = GuardAgent, location = (1, 1), heading = 0, view_range = 6, view_angle = 45,
      agent_width = 0.5, has_collided = False, message_queue_in = [], target = (0, 0),
      is_captured = False, reached_target = False, ticks_in_target = 0,
      ticks_since_target = 0, times_visited_target = 0\<rparr>"

text \<open>A 3 by 3 map without walls, and the same map with the one wall cell (2, 1).\<close>

definition open_map :: Map where
  "open_map = \<lparr>width = 3, height = 3, map_size = (3, 3), is_wall = (\<lambda>x y. False)\<rparr>"

definition wall_map :: Map where
  "wall_map = \<lparr>width = 3, height = 3, map_size = (3, 3), is_wall = (\<lambda>x y. x = 2 \<and> y = 1)\<rparr>"

text \<open>Agents that do nothing when called, and a draw that emits no noise.\<close>

definition idle :: behaviour where
  "idle = \<lparr>agent_tick = (\<lambda>ID seen agent. (agent, [], None)),
           agent_on_noise = (\<lambda>ID ns agent. (agent, None))\<rparr>"

definition quiet :: Random where
  "quiet = \<lparr>uniform = 1, randint_x = 0, randint_y = 0\<rparr>"

text \<open>
  An intruder on its target that made two qualifying visits and has been inside for 59
  ticks, and one that comes back to the target 60 ticks after its first visit.
\<close>

definition lingerer :: Agent where
  "lingerer = intruder0\<lparr>reached_target := True, ticks_in_target := 59, times_visited_target := 2\<rparr>"

definition returner :: Agent where
  "returner = intruder0\<lparr>ticks_since_target := 60, times_visited_target := 1\<rparr>"

text \<open>
  A world on the map with the wall cell (2, 1), whose only agent, a guard of width 0.5,
  has its centre inside that cell, 0.1 left of the cell's centre.
\<close>

definition embedded_guard :: Agent where
  "embedded_guard = guard0\<lparr>location := (2.4, 1.5)\<rparr>"

definition wall_world :: World where
  "wall_world =
     \<lparr>world_map = wall_map, agents = [(1, embedded_guard)], noises = [], old_noises = [],
      time_ticks = 0, trace = []\<rparr>"

text \<open>
  Worlds on the open map: a guard alone; a guard next to an intruder that sits on its
  target, and that world after the tick in which the intruder is captured; an intruder
  between two guards, and one more intruder out of their reach; a world with a current
  and a past noise event.
\<close>

definition guard_world :: World where
  "guard_world =
     \<lparr>world_map = open_map, agents = [(1, guard0)], noises = [], old_noises = [],
      time_ticks = 0, trace = []\<rparr>"

definition caught_world :: World where
  "caught_world =
     \<lparr>world_map = open_map, agents = [(1, guard0), (2, intruder0)], noises = [],
      old_noises = [], time_ticks = 0, trace = []\<rparr>"

definition caught_after :: World where
  "caught_after =
     \<lparr>world_map = open_map, agents = [(1, guard0), (2, intruder0\<lparr>is_captured := True\<rparr>)],
      noises = [], old_noises = [], time_ticks = 0,
      trace = [OnCaptured 2, Print ''The guards won!'']\<rparr>"

definition guard1 :: Agent where
  "guard1 = guard0\<lparr>location := (1.4, 1)\<rparr>"

definition intruder1 :: Agent where
  "intruder1 = intruder0\<lparr>location := (2.5, 1)\<rparr>"

definition pincer_world :: World where
  "pincer_world =
     \<lparr>world_map = open_map,
      agents = [(1, guard0), (2, intruder0), (3, guard1), (4, intruder1)],
      noises = [], old_noises = [], time_ticks = 0, trace = []\<rparr>"

definition noisy_world :: World where
  "noisy_world =
     guard_world\<lparr>noises := [NoiseEvent_init (1, 1)], old_noises := [NoiseEvent_init (0, 0)]\<rparr>"

text \<open>
  A guard that its last move has taken off the map; a world whose only agent is a guard
  with the ID 2; and agents that, like \<^verbatim>\<open>SimpleGuard.on_tick\<close> of \<^verbatim>\<open>ai/agents.py\<close>, send a
  message to the agent 1 when they are not that agent themselves.
\<close>

definition stray_guard :: Agent where
  "stray_guard = guard0\<lparr>location := (3.7, - 1)\<rparr>"

definition lone_world :: World where
  "lone_world =
     \<lparr>world_map = open_map, agents = [(2, guard0)], noises = [], old_noises = [],
      time_ticks = 0, trace = []\<rparr>"

definition turned :: "AgentID \<Rightarrow> Message" where
  "turned ID = \<lparr>msg_source = ID, msg_target = 1, msg_text = ''I just turned!''\<rparr>"

definition shouter :: behaviour where
  "shouter = \<lparr>agent_tick = (\<lambda>ID seen agent. (agent, if ID \<noteq> 1 then [turned ID] else [], None)),
              agent_on_noise = (\<lambda>ID ns agent. (agent, None))\<rparr>"

text \<open>
  A guard at (1, 2) that looks along the positive y axis (heading 0, half-angle 45,
  range 6), an agent straight ahead of it and two agents straight behind it, at the
  distances 1.4 and 1.6.
\<close>

definition watcher :: Agent where
  "watcher = guard0\<lparr>location := (1, 2)\<rparr>"

definition ahead :: Agent where
  "ahead = intruder0\<lparr>location := (1, 2.9)\<rparr>"

definition behind_near :: Agent where
  "behind_near = intruder0\<lparr>location := (1, 0.6)\<rparr>"

definition behind_far :: Agent where
  "behind_far = intruder0\<lparr>location := (1, 0.4)\<rparr>"

definition crowd :: "(AgentID \<times> Agent) list" where
  "crowd = [(1, watcher), (2, ahead), (3, behind_near), (4, behind_far)]"

text \<open>
  A world on the map with the wall cell (2, 1), whose only agent is a guard on the centre
  of that cell.
\<close>

definition centre_guard :: Agent where
  "centre_guard = guard0\<lparr>location := (2.5, 1.5)\<rparr>"

definition centre_world :: World where
  "centre_world =
     \<lparr>world_map = wall_map, agents = [(1, centre_guard)], noises = [], old_noises = [],
      time_ticks = 0, trace = []\<rparr>"

section \<open>Properties of the target check\<close>

lemma vlength_zero [simp]: "vlength (vsub p p) = 0"
  by (simp add: vlength_def vsub_def)

lemma target_counters_in:
  "vlength (vsub (location a) (target a)) < 0.5 \<Longrightarrow>
   ticks_in_target (target_counters a) = ticks_in_target a + 1"
  by (simp add: target_counters_def Let_def)

lemma target_counters_target: "target (target_counters a) = target a"
  by (simp add: target_counters_def Let_def)

lemma target_counters_reached: "reached_target (target_counters a) = reached_target a"
  by (simp add: target_counters_def Let_def)

lemma target_counters_visits_fresh:
  "vlength (vsub (location a) (target a)) < 0.5 \<Longrightarrow> ticks_in_target a = 0 \<Longrightarrow>
   times_visited_target (target_counters a) =
     (if ticks_since_target a * TIME_PER_TICK \<ge> 3 \<or> times_visited_target a = 0
      then times_visited_target a + 1 else times_visited_target a)"
  by (simp add: target_counters_def Let_def)

lemma target_counters_visits_stay:
  "ticks_in_target a \<noteq> 0 \<Longrightarrow>
   times_visited_target (target_counters a) = times_visited_target a"
  by (simp add: target_counters_def Let_def)

lemma target_wins_fields:
  "target (fst (target_wins ID a)) = target a"
  "ticks_in_target (fst (target_wins ID a)) = ticks_in_target a"
  "ticks_since_target (fst (target_wins ID a)) = ticks_since_target a"
  "times_visited_target (fst (target_wins ID a)) = times_visited_target a"
  by (simp_all add: target_wins_def)

lemma target_intruder_in:
  assumes "vlength (vsub p (target a)) < 0.5"
  shows "ticks_in_target (fst (target_intruder ID (a\<lparr>location := p\<rparr>))) = ticks_in_target a + 1"
    and "target (fst (target_intruder ID (a\<lparr>location := p\<rparr>))) = target a"
  using assms
  by (simp_all add: target_intruder_def target_wins_fields target_counters_in target_counters_target)

lemma stay_ticks_in_target:
  "\<forall>p\<in>set ps. vlength (vsub p (target a)) < 0.5 \<Longrightarrow>
   ticks_in_target (fst (stay ID ps a)) = ticks_in_target a + real (length ps)
   \<and> target (fst (stay ID ps a)) = target a"
proof (induction ps arbitrary: a)
  case Nil
  then show ?case by simp
next
  case (Cons p ps)
  let ?a1 = "fst (target_intruder ID (a\<lparr>location := p\<rparr>))"
  have p: "vlength (vsub p (target a)) < 0.5" using Cons.prems by simp
  have t: "target ?a1 = target a" and n: "ticks_in_target ?a1 = ticks_in_target a + 1"
    using target_intruder_in [OF p] by simp_all
  have "\<forall>q\<in>set ps. vlength (vsub q (target ?a1)) < 0.5"
    using Cons.prems t by simp
  from Cons.IH [OF this] t n show ?case
    by (simp add: split_beta Let_def)
qed

lemma stay_snoc:
  "stay ID (ps @ [p]) a =
     (let (i1, ev) = stay ID ps a;
          (i2, ev') = target_intruder ID (i1\<lparr>location := p\<rparr>)
      in (i2, ev @ ev'))"
  by (induction ps arbitrary: a) (simp_all add: split_beta Let_def)

lemma target_wins_dwell:
  "ticks_in_target a * TIME_PER_TICK \<ge> 3 \<Longrightarrow>
   target_wins ID a = (a\<lparr>reached_target := True\<rparr>, [OnReachedTarget ID])"
  by (simp add: target_wins_def)

lemma stay_reaches:
  assumes "\<forall>p\<in>set ps. vlength (vsub p (target a)) < 0.5"
    and "ps \<noteq> []" and "ticks_in_target a + real (length ps) \<ge> 60"
  shows "reached_target (fst (stay ID ps a)) \<and> snd (stay ID ps a) \<noteq> []
         \<and> last (snd (stay ID ps a)) = OnReachedTarget ID"
proof -
  obtain qs q where ps: "ps = qs @ [q]"
    using assms(2) by (metis rev_exhaust)
  let ?i1 = "fst (stay ID qs a)"
  have qs: "\<forall>p\<in>set qs. vlength (vsub p (target a)) < 0.5"
    using assms(1) ps by simp
  have q: "vlength (vsub q (target ?i1)) < 0.5"
    using assms(1) ps stay_ticks_in_target [OF qs, of ID] by simp
  have "ticks_in_target ?i1 = ticks_in_target a + real (length qs)"
    using stay_ticks_in_target [OF qs, of ID] by simp
  then have "ticks_in_target (target_counters (?i1\<lparr>location := q\<rparr>)) \<ge> 60"
    using assms(3) ps q by (simp add: target_counters_in)
  then have "ticks_in_target (target_counters (?i1\<lparr>location := q\<rparr>)) * TIME_PER_TICK \<ge> 3"
    by (simp add: TIME_PER_TICK_def TICK_RATE_def)
  then have "target_intruder ID (?i1\<lparr>location := q\<rparr>) =
      ((target_counters (?i1\<lparr>location := q\<rparr>))\<lparr>reached_target := True\<rparr>, [OnReachedTarget ID])"
    by (simp add: target_intruder_def target_wins_dwell)
  then show ?thesis
    by (simp add: ps stay_snoc split_beta Let_def)
qed

lemma stay_before_dwell:
  assumes "\<forall>p\<in>set ps. vlength (vsub p (target a)) < 0.5"
    and "ticks_in_target a > 0" and "ticks_in_target a + real (length ps) < 60"
  shows "snd (stay ID ps a) = []
         \<and> (reached_target (fst (stay ID ps a)) \<longleftrightarrow>
              reached_target a \<or> (ps \<noteq> [] \<and> 2 \<le> times_visited_target a))"
  using assms
proof (induction ps arbitrary: a)
  case Nil
  then show ?case by simp
next
  case (Cons p ps)
  let ?b = "a\<lparr>location := p\<rparr>"
  let ?c = "target_counters ?b"
  let ?a1 = "fst (target_intruder ID ?b)"
  have p: "vlength (vsub (location ?b) (target ?b)) < 0.5" using Cons.prems(1) by simp
  have n: "ticks_in_target ?c = ticks_in_target a + 1"
    using target_counters_in [OF p] by simp
  have v: "times_visited_target ?c = times_visited_target a"
    using Cons.prems(2) by (simp add: target_counters_visits_stay)
  have r: "reached_target ?c = reached_target a"
    by (simp add: target_counters_reached)
  have lt: "\<not> 3 \<le> ticks_in_target ?c * TIME_PER_TICK"
    using n Cons.prems(3) by (simp add: TIME_PER_TICK_def TICK_RATE_def)
  have ev: "snd (target_intruder ID ?b) = []"
    using lt by (simp add: target_intruder_def target_wins_def)
  have r1: "reached_target ?a1 \<longleftrightarrow> reached_target a \<or> 2 \<le> times_visited_target a"
    using lt v r by (simp add: target_intruder_def target_wins_def)
  have v1: "times_visited_target ?a1 = times_visited_target a"
    using v by (simp add: target_intruder_def target_wins_fields)
  have n1: "ticks_in_target ?a1 = ticks_in_target a + 1"
    using n by (simp add: target_intruder_def target_wins_fields)
  have t1: "target ?a1 = target a"
    by (simp add: target_intruder_def target_wins_fields target_counters_target)
  have "\<forall>q\<in>set ps. vlength (vsub q (target ?a1)) < 0.5"
    using Cons.prems(1) t1 by simp
  moreover have "ticks_in_target ?a1 > 0" using n1 Cons.prems(2) by simp
  moreover have "ticks_in_target ?a1 + real (length ps) < 60"
    using n1 Cons.prems(3) by simp
  ultimately have ih: "snd (stay ID ps ?a1) = []
      \<and> (reached_target (fst (stay ID ps ?a1)) \<longleftrightarrow>
           reached_target ?a1 \<or> (ps \<noteq> [] \<and> 2 \<le> times_visited_target ?a1))"
    by (rule Cons.IH)
  show ?case
    using ih ev r1 v1 by (auto simp: split_beta)
qed

lemma stay_fifty_nine:
  assumes inside: "\<forall>p\<in>set ps. vlength (vsub p (target intruder)) < 0.5"
    and fresh: "ticks_in_target intruder = 0"
    and len: "length ps = 59"
  shows "snd (stay ID ps intruder) = []
         \<and> (reached_target (fst (stay ID ps intruder)) \<longleftrightarrow>
              reached_target intruder
              \<or> 2 \<le> times_visited_target intruder
              \<or> (1 \<le> times_visited_target intruder
                  \<and> 3 \<le> ticks_since_target intruder * TIME_PER_TICK))"
proof -
  from len obtain p qs where ps: "ps = p # qs" and lq: "length qs = 58"
    by (cases ps) auto
  let ?b = "intruder\<lparr>location := p\<rparr>"
  let ?c = "target_counters ?b"
  let ?a1 = "fst (target_intruder ID ?b)"
  have p: "vlength (vsub (location ?b) (target ?b)) < 0.5" using inside ps by simp
  have n: "ticks_in_target ?c = 1"
    using target_counters_in [OF p] fresh by simp
  have v: "2 \<le> times_visited_target ?c \<longleftrightarrow>
      2 \<le> times_visited_target intruder
      \<or> (1 \<le> times_visited_target intruder
          \<and> 3 \<le> ticks_since_target intruder * TIME_PER_TICK)"
    using fresh target_counters_visits_fresh [OF p] by auto
  have r: "reached_target ?c = reached_target intruder"
    by (simp add: target_counters_reached)
  have lt: "\<not> 3 \<le> ticks_in_target ?c * TIME_PER_TICK"
    using n by (simp add: TIME_PER_TICK_def TICK_RATE_def)
  have ev: "snd (target_intruder ID ?b) = []"
    using lt by (simp add: target_intruder_def target_wins_def)
  have r1: "reached_target ?a1 \<longleftrightarrow> reached_target intruder \<or> 2 \<le> times_visited_target ?c"
    using lt r by (simp add: target_intruder_def target_wins_def)
  have v1: "times_visited_target ?a1 = times_visited_target ?c"
    by (simp add: target_intruder_def target_wins_fields)
  have n1: "ticks_in_target ?a1 = 1"
    using n by (simp add: target_intruder_def target_wins_fields)
  have t1: "target ?a1 = target intruder"
    by (simp add: target_intruder_def target_wins_fields target_counters_target)
  have "\<forall>q\<in>set qs. vlength (vsub q (target ?a1)) < 0.5"
    using inside ps t1 by simp
  moreover have "ticks_in_target ?a1 > 0" using n1 by simp
  moreover have "ticks_in_target ?a1 + real (length qs) < 60" using n1 lq by simp
  ultimately have rest: "snd (stay ID qs ?a1) = []
      \<and> (reached_target (fst (stay ID qs ?a1)) \<longleftrightarrow>
           reached_target ?a1 \<or> (qs \<noteq> [] \<and> 2 \<le> times_visited_target ?a1))"
    by (rule stay_before_dwell)
  have "snd (stay ID ps intruder) = []"
    using rest ev by (simp add: ps split_beta)
  moreover have "reached_target (fst (stay ID ps intruder)) \<longleftrightarrow>
      reached_target intruder \<or> 2 \<le> times_visited_target ?c"
    using rest r1 v1 by (auto simp: ps split_beta)
  ultimately show ?thesis using v by simp
qed

text \<open>
  C5, as stated, fails in its second half: an intruder that comes back to the target 60
  ticks after its first visit has \<open>reached_target\<close> set on the tick of its entry, as its
  second qualifying visit, and so has it after 59 consecutive ticks inside.
\<close>

theorem revisit_reaches_before_sixty_counterexample:
  "ticks_in_target returner = 0 \<and> \<not> reached_target returner
   \<and> reached_target (fst (stay 1 (replicate 59 (1.2, 1)) returner))"
proof -
  have t: "target returner = (1.2, 1)" and f: "ticks_in_target returner = 0"
    and r: "\<not> reached_target returner" and v: "times_visited_target returner = 1"
    and s: "3 \<le> ticks_since_target returner * TIME_PER_TICK"
    by (simp_all add: returner_def intruder0_def TIME_PER_TICK_def TICK_RATE_def)
  have i: "\<forall>p\<in>set (replicate 59 (1.2, 1)). vlength (vsub p (target returner)) < 0.5"
    by (simp add: t)
  show ?thesis
    using stay_fifty_nine [OF i f, of 1] f r v s by simp
qed

text \<open>
  C5, amended. An intruder whose run of ticks inside the target starts with
  \<open>ticks_in_target = 0\<close> and that is within 0.5 of its target on each of 60 consecutive
  ticks has \<open>reached_target\<close> set by the target check, which invokes
  \<open>on_reached_target\<close> on the 60th tick (60 ticks of 1/20 s are 3.0 s). After only 59
  such ticks \<open>on_reached_target\<close> has not been invoked; \<open>reached_target\<close> is not set
  either, unless it was set before the run or the entry was a second qualifying visit
  (\<open>times_visited_target\<close> was at least 2, or at least 1 with
  \<open>ticks_since_target * TIME_PER_TICK \<ge> 3.0\<close>).
\<close>

theorem dwell_sixty_ticks:
  assumes inside: "\<forall>p\<in>set ps. vlength (vsub p (target intruder)) < 0.5"
    and fresh: "ticks_in_target intruder = 0"
  shows "(length ps = 60 \<longrightarrow>
            reached_target (fst (stay ID ps intruder))
            \<and> snd (stay ID ps intruder) \<noteq> []
            \<and> last (snd (stay ID ps intruder)) = OnReachedTarget ID)
       \<and> (length ps = 59 \<longrightarrow>
            snd (stay ID ps intruder) = []
            \<and> (reached_target (fst (stay ID ps intruder)) \<longleftrightarrow>
                 reached_target intruder
                 \<or> 2 \<le> times_visited_target intruder
                 \<or> (1 \<le> times_visited_target intruder
                     \<and> 3 \<le> ticks_since_target intruder * TIME_PER_TICK)))"
proof -
  have sixty: "reached_target (fst (stay ID ps intruder))
      \<and> snd (stay ID ps intruder) \<noteq> []
      \<and> last (snd (stay ID ps intruder)) = OnReachedTarget ID" if len: "length ps = 60"
  proof -
    have ne: "ps \<noteq> []" using len by auto
    have "ticks_in_target intruder + real (length ps) \<ge> 60"
      using fresh len by simp
    from stay_reaches [OF inside ne this, of ID] show ?thesis .
  qed
  from sixty stay_fifty_nine [OF inside fresh, of ID] show ?thesis by blast
qed

theorem dwell_sixty_ticks_witness:
  "reached_target (fst (stay 1 (replicate 60 (1.2, 1)) intruder0))
   \<and> last (snd (stay 1 (replicate 60 (1.2, 1)) intruder0)) = OnReachedTarget 1
   \<and> \<not> reached_target (fst (stay 1 (replicate 59 (1.2, 1)) intruder0))
   \<and> snd (stay 1 (replicate 59 (1.2, 1)) intruder0) = []"
proof -
  have t: "target intruder0 = (1.2, 1)" and f: "ticks_in_target intruder0 = 0"
    and r: "\<not> reached_target intruder0" and v: "times_visited_target intruder0 = 0"
    by (simp_all add: intruder0_def)
  have i60: "\<forall>p\<in>set (replicate 60 (1.2, 1)). vlength (vsub p (target intruder0)) < 0.5"
    by (simp add: t)
  have i59: "\<forall>p\<in>set (replicate 59 (1.2, 1)). vlength (vsub p (target intruder0)) < 0.5"
    by (simp add: t)
  show ?thesis
    using dwell_sixty_ticks [OF i60 f, of 1] dwell_sixty_ticks [OF i59 f, of 1] r v
    by simp
qed

text \<open>
  C6, as stated, fails: an intruder with two qualifying visits that has been inside the
  target for 60 ticks is notified, the dwell test coming first.
\<close>

theorem revisit_win_notifies_counterexample:
  "2 \<le> times_visited_target (fst (target_intruder 1 lingerer))
   \<and> snd (target_intruder 1 lingerer) = [OnReachedTarget 1]"
  by (simp add: lingerer_def intruder0_def target_intruder_def target_wins_def
      target_counters_def TIME_PER_TICK_def TICK_RATE_def vlength_def vsub_def)

text \<open>
  C6, amended. On a tick where an intruder is within 0.5 of its target and
  \<open>ticks_in_target\<close> was 0, \<open>times_visited_target\<close> is incremented if and only if
  \<open>ticks_since_target * TIME_PER_TICK \<ge> 3.0\<close> or it was 0 (the very first visit). Once
  \<open>times_visited_target \<ge> 2\<close> the target check sets \<open>reached_target\<close>; it does so
  without invoking \<open>on_reached_target\<close> exactly when the dwell condition
  \<open>ticks_in_target * TIME_PER_TICK \<ge> 3.0\<close> does not hold on that tick.
\<close>

theorem fresh_entry_and_revisit_win:
  "(vlength (vsub (location a) (target a)) < 0.5 \<and> ticks_in_target a = 0 \<longrightarrow>
      times_visited_target (fst (target_intruder ID a)) =
        (if 3 \<le> ticks_since_target a * TIME_PER_TICK \<or> times_visited_target a = 0
         then times_visited_target a + 1 else times_visited_target a))
   \<and> (2 \<le> times_visited_target (fst (target_intruder ID a)) \<longrightarrow>
        reached_target (fst (target_intruder ID a))
        \<and> (snd (target_intruder ID a) = []
             \<longleftrightarrow> ticks_in_target (fst (target_intruder ID a)) * TIME_PER_TICK < 3))"
proof (intro conjI impI)
  assume "vlength (vsub (location a) (target a)) < 0.5 \<and> ticks_in_target a = 0"
  then show "times_visited_target (fst (target_intruder ID a)) =
        (if 3 \<le> ticks_since_target a * TIME_PER_TICK \<or> times_visited_target a = 0
         then times_visited_target a + 1 else times_visited_target a)"
    by (simp add: target_intruder_def target_wins_fields target_counters_visits_fresh)
next
  assume "2 \<le> times_visited_target (fst (target_intruder ID a))"
  then have v: "2 \<le> times_visited_target (target_counters a)"
    by (simp add: target_intruder_def target_wins_fields)
  then show "reached_target (fst (target_intruder ID a))"
    by (simp add: target_intruder_def target_wins_def)
  from v show "snd (target_intruder ID a) = []
             \<longleftrightarrow> ticks_in_target (fst (target_intruder ID a)) * TIME_PER_TICK < 3"
    by (simp add: target_intruder_def target_wins_def)
qed

theorem fresh_entry_and_revisit_win_witness:
  "times_visited_target (fst (target_intruder 1 returner)) = 2
   \<and> reached_target (fst (target_intruder 1 returner))
   \<and> snd (target_intruder 1 returner) = []"
proof -
  have h: "vlength (vsub (location returner) (target returner)) < 0.5
      \<and> ticks_in_target returner = 0"
    by (simp add: returner_def intruder0_def)
  have c: "3 \<le> ticks_since_target returner * TIME_PER_TICK" "times_visited_target returner = 1"
    by (simp_all add: returner_def intruder0_def TIME_PER_TICK_def TICK_RATE_def)
  have t: "ticks_in_target (fst (target_intruder 1 returner)) = 1"
    using h by (simp add: target_intruder_def target_wins_fields target_counters_in)
  show ?thesis
    using fresh_entry_and_revisit_win [of returner 1] h c t
    by (simp add: TIME_PER_TICK_def TICK_RATE_def)
qed

section \<open>Properties of collision resolution\<close>

lemma vlength_horizontal [simp]: "vlength (x, 0) = \<bar>x\<bar>"
  by (simp add: vlength_def)

lemma clamp_bounds_in_bounds:
  "in_bounds m (location agent) \<Longrightarrow> clamp_bounds m agent = agent"
  by (simp add: clamp_bounds_def in_bounds_def Let_def)

lemma clamp_bounds_range:
  assumes "1 \<le> width m" and "1 \<le> height m"
  shows "in_bounds m (location (clamp_bounds m agent))"
  using assms by (simp add: clamp_bounds_def in_bounds_def Let_def)

lemma collision_point_hit:
  "is_wall m \<lfloor>x\<rfloor> \<lfloor>y\<rfloor> \<Longrightarrow>
   collision_point m x y = Some (of_int \<lfloor>x\<rfloor> + 0.5, of_int \<lfloor>y\<rfloor> + 0.5)"
  by (simp add: collision_point_def Let_def)

lemma collision_point_miss:
  "\<not> is_wall m \<lfloor>x\<rfloor> \<lfloor>y\<rfloor> \<Longrightarrow> collision_point m x y = None"
  by (simp add: collision_point_def Let_def)

lemma circle_collision_miss:
  "\<not> is_wall m \<lfloor>x\<rfloor> \<lfloor>y\<rfloor> \<Longrightarrow> circle_collision m agent x y = Inr None"
  by (simp add: circle_collision_def Let_def)

lemma corner_step_miss:
  "\<not> is_wall m \<lfloor>x\<rfloor> \<lfloor>y\<rfloor> \<Longrightarrow> corner_step m x y agent = Inr agent"
  by (simp add: corner_step_def circle_collision_miss)

lemma edge_push_clear:
  assumes "probes_clear m agent"
  shows "edge_push m agent = agent"
  using assms
  by (simp add: probes_clear_def cell_is_wall_def edge_push_def Let_def collision_point_miss vadd_def)

lemma collide_agent_clear:
  assumes "in_bounds m (location agent)" and "probes_clear m agent"
  shows "collide_agent m agent = Inr agent"
proof -
  have c: "clamp_bounds m agent = agent"
    using assms(1) by (rule clamp_bounds_in_bounds)
  have e: "edge_push m agent = agent"
    using assms(2) by (rule edge_push_clear)
  show ?thesis
    using assms(2)
    by (simp add: collide_agent_def c e Let_def probes_clear_def cell_is_wall_def corner_step_miss)
qed

text \<open>
  C9. An agent whose position lies within the map bounds and whose four edge probes and
  four corner probes all fall in cells that are no walls comes out of collision
  resolution as it went in: same position, has-collided flag not set. Running collision
  resolution on the result again therefore changes nothing either.
\<close>

theorem clear_position_unchanged:
  assumes "in_bounds m (location agent)" and "probes_clear m agent"
  shows "collide_agent m agent = Inr agent
         \<and> collision_loop m [(ID, agent)] = Inr [(ID, agent)]"
  using assms by (simp add: collide_agent_clear)

lemma guard0_fields:
  "location guard0 = (1, 1)" "agent_width guard0 = 0.5" "has_collided guard0 = False"
  "cls guard0 = GuardAgent"
  by (simp_all add: guard0_def)

lemma wall_map_fields:
  "width wall_map = 3" "height wall_map = 3" "is_wall wall_map x y = (x = 2 \<and> y = 1)"
  by (simp_all add: wall_map_def)

theorem clear_position_unchanged_witness:
  "in_bounds wall_map (location guard0) \<and> probes_clear wall_map guard0
   \<and> collide_agent wall_map guard0 = Inr guard0
   \<and> \<not> has_collided guard0"
proof -
  have b: "in_bounds wall_map (location guard0)"
    by (simp add: in_bounds_def guard0_fields wall_map_fields)
  have p: "probes_clear wall_map guard0"
    by (simp add: probes_clear_def cell_is_wall_def guard0_fields wall_map_fields Let_def)
  show ?thesis
    using clear_position_unchanged [OF b p, of 1] b p by (simp add: guard0_fields)
qed

lemma collision_loop_clear:
  "\<forall>(ID, agent)\<in>set ags. in_bounds m (location agent) \<and> probes_clear m agent \<Longrightarrow>
   collision_loop m ags = Inr ags"
  by (induction ags) (auto simp: collide_agent_clear)

subsection \<open>An agent inside a wall cell at the edge of the map\<close>

lemma embedded_guard_fields:
  "location embedded_guard = (2.4, 1.5)" "agent_width embedded_guard = 0.5"
  "has_collided embedded_guard = False" "cls embedded_guard = GuardAgent"
  by (simp_all add: embedded_guard_def guard0_def)

lemma clamp_embedded: "clamp_bounds wall_map embedded_guard = embedded_guard"
  by (rule clamp_bounds_in_bounds) (simp add: in_bounds_def embedded_guard_fields wall_map_fields)

lemma push_embedded:
  "edge_push wall_map embedded_guard =
     embedded_guard\<lparr>location := (2.6, 1.5), has_collided := True\<rparr>"
  by (simp add: edge_push_def collision_point_hit collision_point_miss wall_map_fields
      embedded_guard_fields Let_def vadd_def del: not_None_eq)

lemma corner_embedded:
  "corner_step wall_map (2.4 - 0.5 / 2) (1.5 - 0.5 / 2)
     (embedded_guard\<lparr>location := (2.6, 1.5), has_collided := True\<rparr>)
   = Inr (embedded_guard\<lparr>location := (3.25, 1.5), has_collided := True\<rparr>)"
  "corner_step wall_map (2.4 - 0.5 / 2) (1.5 + 0.5 / 2)
     (embedded_guard\<lparr>location := (3.25, 1.5), has_collided := True\<rparr>)
   = Inr (embedded_guard\<lparr>location := (3.25, 1.5), has_collided := True\<rparr>)"
  "corner_step wall_map (2.4 + 0.5 / 2) (1.5 - 0.5 / 2)
     (embedded_guard\<lparr>location := (3.25, 1.5), has_collided := True\<rparr>)
   = Inr (embedded_guard\<lparr>location := (3.25, 1.5), has_collided := True\<rparr>)"
  "corner_step wall_map (2.4 + 0.5 / 2) (1.5 + 0.5 / 2)
     (embedded_guard\<lparr>location := (3.25, 1.5), has_collided := True\<rparr>)
   = Inr (embedded_guard\<lparr>location := (3.25, 1.5), has_collided := True\<rparr>)"
  by (simp_all add: corner_step_def circle_collision_def as_length_def wall_map_fields
      embedded_guard_fields Let_def vadd_def vsub_def)

lemma collide_embedded:
  "collide_agent wall_map embedded_guard =
     Inr (embedded_guard\<lparr>location := (3.25, 1.5), has_collided := True\<rparr>)"
  unfolding collide_agent_def clamp_embedded Let_def push_embedded embedded_guard_fields fst_conv snd_conv
  by (simp only: corner_embedded sum.case)

section \<open>Agents that do nothing\<close>

lemma set_agent_same:
  assumes "distinct (map fst (agents w))" and "map_of (agents w) ID = Some agent"
  shows "set_agent ID agent w = w"
proof -
  have "map (\<lambda>(k, a). if k = ID then (k, agent) else (k, a)) (agents w) = agents w"
  proof (rule map_idI)
    fix x assume x: "x \<in> set (agents w)"
    obtain k a where ka: "x = (k, a)" by (cases x)
    show "(case x of (k, a) \<Rightarrow> if k = ID then (k, agent) else (k, a)) = x"
    proof (cases "k = ID")
      case True
      then have "map_of (agents w) ID = Some a"
        using assms(1) x ka by simp
      then show ?thesis using assms(2) ka True by simp
    next
      case False
      then show ?thesis using ka by simp
    qed
  qed
  then show ?thesis by (simp add: set_agent_def)
qed

lemma agents_loop_idle:
  "distinct (map fst (agents w)) \<Longrightarrow> agents_loop idle IDs w = Inr w"
proof (induction IDs)
  case Nil
  then show ?case by simp
next
  case (Cons ID IDs)
  show ?case
  proof (cases "map_of (agents w) ID")
    case None
    then show ?thesis using Cons by simp
  next
    case (Some agent)
    have "set_agent ID (agent\<lparr>cls := cls agent\<rparr>) w = w"
      using set_agent_same [OF Cons.prems Some] by simp
    then show ?thesis using Cons Some by (simp add: idle_def)
  qed
qed

lemma noise_loop_idle:
  "distinct (map fst (agents w)) \<Longrightarrow> noise_loop idle IDs w = Inr w"
proof (induction IDs)
  case Nil
  then show ?case by simp
next
  case (Cons ID IDs)
  show ?case
  proof (cases "map_of (agents w) ID")
    case None
    then show ?thesis using Cons by simp
  next
    case (Some agent)
    have "set_agent ID (agent\<lparr>cls := cls agent\<rparr>) w = w"
      using set_agent_same [OF Cons.prems Some] by simp
    then show ?thesis using Cons Some by (simp add: idle_def)
  qed
qed

lemma collision_loop_keys:
  "map fst (case collision_loop m ags of Inl (e, ags') \<Rightarrow> ags' | Inr ags' \<Rightarrow> ags') = map fst ags"
  by (induction ags) (auto split: sum.splits prod.splits)

lemma collision_check_keys:
  "collision_check w = Inr w' \<Longrightarrow> map fst (agents w') = map fst (agents w)"
  using collision_loop_keys [of "world_map w" "agents w"]
  by (auto simp: collision_check_def split: sum.splits prod.splits)

lemma tick_run_idle:
  assumes "distinct (map fst (agents w))"
  shows "tick_run idle rnd w = collision_check (emit_random_noise rnd (roll_noises w))"
proof -
  let ?w2 = "emit_random_noise rnd (roll_noises w)"
  have a: "agents ?w2 = agents w"
    by (simp add: emit_random_noise_def roll_noises_def add_noise_def Let_def)
  have l: "agents_loop idle (map fst (agents ?w2)) ?w2 = Inr ?w2"
    using assms a by (simp add: agents_loop_idle)
  show ?thesis
  proof (cases "collision_check ?w2")
    case (Inl e)
    then show ?thesis by (simp add: tick_run_def Let_def l)
  next
    case (Inr w4)
    have "distinct (map fst (agents w4))"
      using collision_check_keys [OF Inr] a assms by simp
    then show ?thesis using Inr by (simp add: tick_run_def Let_def l noise_loop_idle)
  qed
qed


section \<open>What the loops of the tick leave alone\<close>

lemma surroundings_set_agent [simp]: "surroundings (set_agent ID agent w) = surroundings w"
  by (simp add: surroundings_def set_agent_def)

lemma surroundings_transmit_message:
  "surroundings (world_after (transmit_message w message)) = surroundings w"
  by (simp add: transmit_message_def world_after_def surroundings_def split: option.splits)

lemma surroundings_transmit_all:
  "surroundings (world_after (transmit_all w ms)) = surroundings w"
proof (induction ms arbitrary: w)
  case Nil
  then show ?case by (simp add: world_after_def)
next
  case (Cons message ms)
  show ?case
  proof (cases "transmit_message w message")
    case (Inl e)
    then show ?thesis
      using surroundings_transmit_message [of w message] by (simp add: world_after_def)
  next
    case (Inr w')
    then show ?thesis
      using surroundings_transmit_message [of w message] Cons [of w']
      by (simp add: world_after_def)
  qed
qed

lemma surroundings_agents_loop:
  "surroundings (world_after (agents_loop cb IDs w)) = surroundings w"
proof (induction IDs arbitrary: w)
  case Nil
  then show ?case by (simp add: world_after_def)
next
  case (Cons ID IDs)
  show ?case
  proof (cases "map_of (agents w) ID")
    case None
    then show ?thesis using Cons by simp
  next
    case (Some agent)
    obtain agent' outbox raised
      where t: "agent_tick cb ID (visible_agents (agents w) ID agent) agent = (agent', outbox, raised)"
      by (metis prod_cases3)
    let ?w1 = "set_agent ID (agent'\<lparr>cls := cls agent\<rparr>) w"
    have s1: "surroundings (world_after (transmit_all ?w1 outbox)) = surroundings w"
      using surroundings_transmit_all [of ?w1 outbox] by simp
    show ?thesis
    proof (cases "transmit_all ?w1 outbox")
      case (Inl e)
      then show ?thesis using Some t s1 by (simp add: Let_def)
    next
      case (Inr w2)
      then have s2: "surroundings w2 = surroundings w"
        using s1 by (simp add: world_after_def)
      show ?thesis
      proof (cases raised)
        case None
        then show ?thesis using Some t Inr s2 Cons [of w2] by (simp add: Let_def)
      next
        case (Some e)
        then show ?thesis using \<open>map_of (agents w) ID = Some agent\<close> t Inr s2
          by (simp add: Let_def world_after_def)
      qed
    qed
  qed
qed

lemma surroundings_noise_loop:
  "surroundings (world_after (noise_loop cb IDs w)) = surroundings w"
proof (induction IDs arbitrary: w)
  case Nil
  then show ?case by (simp add: world_after_def)
next
  case (Cons ID IDs)
  show ?case
  proof (cases "map_of (agents w) ID")
    case None
    then show ?thesis using Cons by simp
  next
    case (Some agent)
    obtain agent' raised
      where t: "agent_on_noise cb ID (noises w) agent = (agent', raised)"
      by (cases "agent_on_noise cb ID (noises w) agent")
    let ?w1 = "set_agent ID (agent'\<lparr>cls := cls agent\<rparr>) w"
    show ?thesis
    proof (cases raised)
      case None
      then show ?thesis using Some t Cons [of ?w1] by (simp add: Let_def)
    next
      case (Some e)
      then show ?thesis using \<open>map_of (agents w) ID = Some agent\<close> t
        by (simp add: Let_def world_after_def)
    qed
  qed
qed

lemma surroundings_collision_check:
  "surroundings (world_after (collision_check w)) = surroundings w"
  by (simp add: collision_check_def world_after_def surroundings_def split: sum.splits prod.splits)


lemma surroundings_tick_run:
  "surroundings (world_after (tick_run cb rnd w)) =
     surroundings (emit_random_noise rnd (roll_noises w))"
proof -
  let ?w2 = "emit_random_noise rnd (roll_noises w)"
  let ?ids = "map fst (agents ?w2)"
  have a: "surroundings (world_after (agents_loop cb ?ids ?w2)) = surroundings ?w2"
    by (rule surroundings_agents_loop)
  show ?thesis
  proof (cases "agents_loop cb ?ids ?w2")
    case (Inl e)
    then show ?thesis using a by (simp add: tick_run_def Let_def)
  next
    case (Inr w3)
    then have s3: "surroundings w3 = surroundings ?w2"
      using a by (simp add: world_after_def)
    have c: "surroundings (world_after (collision_check w3)) = surroundings w3"
      by (rule surroundings_collision_check)
    show ?thesis
    proof (cases "collision_check w3")
      case (Inl e)
      then show ?thesis using \<open>agents_loop cb ?ids ?w2 = Inr w3\<close> c s3
        by (simp add: tick_run_def Let_def)
    next
      case (Inr w4)
      then have s4: "surroundings w4 = surroundings ?w2"
        using c s3 by (simp add: world_after_def)
      have "surroundings (world_after (noise_loop cb (map fst (agents w4)) w4)) = surroundings w4"
        by (rule surroundings_noise_loop)
      then show ?thesis using \<open>agents_loop cb ?ids ?w2 = Inr w3\<close> Inr s4
        by (simp add: tick_run_def Let_def)
    qed
  qed
qed

section \<open>Properties of the noise lists\<close>

lemma noise_lists_capture_check:
  "noises (snd (capture_check w)) = noises w" "old_noises (snd (capture_check w)) = old_noises w"
  "time_ticks (snd (capture_check w)) = time_ticks w"
  by (simp_all add: capture_check_def split_beta Let_def)

lemma noise_lists_target_check:
  "noises (snd (target_check w)) = noises w" "old_noises (snd (target_check w)) = old_noises w"
  "time_ticks (snd (target_check w)) = time_ticks w"
  by (simp_all add: target_check_def split_beta Let_def)

lemma noise_lists_tick_checks:
  "noises (snd (tick_checks w)) = noises w" "old_noises (snd (tick_checks w)) = old_noises w"
  by (simp_all add: tick_checks_def split_beta Let_def print_def noise_lists_capture_check
      noise_lists_target_check)

lemma noise_lists_emit:
  "old_noises (emit_random_noise rnd w) = old_noises w"
  "length (noises (emit_random_noise rnd w)) \<le> length (noises w) + 1"
  by (simp_all add: emit_random_noise_def add_noise_def Let_def)

lemma noise_lists_tick:
  "old_noises (world_after_tick (tick cb rnd w)) = old_noises w @ noises w"
  "noises (world_after_tick (tick cb rnd w)) = noises (emit_random_noise rnd (roll_noises w))"
proof -
  let ?w2 = "emit_random_noise rnd (roll_noises w)"
  have s: "surroundings (world_after (tick_run cb rnd w)) = surroundings ?w2"
    by (rule surroundings_tick_run)
  have o: "old_noises ?w2 = old_noises w @ noises w"
    by (simp add: noise_lists_emit roll_noises_def)
  show "old_noises (world_after_tick (tick cb rnd w)) = old_noises w @ noises w"
    using s o
    by (cases "tick_run cb rnd w")
      (auto simp: tick_def world_after_def world_after_tick_def surroundings_def
        noise_lists_tick_checks split_beta)
  show "noises (world_after_tick (tick cb rnd w)) = noises ?w2"
    using s
    by (cases "tick_run cb rnd w")
      (auto simp: tick_def world_after_def world_after_tick_def surroundings_def
        noise_lists_tick_checks split_beta)
qed

text \<open>
  C8. A tick starts by appending the current noise list, in order, to the historical
  list and emptying the current list; then at most one ambient noise event is added.
  When the tick is over, by return or by exception, the historical list is the old one
  followed by the old current list, and the current list holds at most that one event.
  No operation of the world removes an element from the historical list: all but the
  tick leave it as it is.
\<close>

theorem noise_rolls_into_history:
  "old_noises (roll_noises w) = old_noises w @ noises w
   \<and> noises (roll_noises w) = []
   \<and> old_noises (emit_random_noise rnd (roll_noises w)) = old_noises w @ noises w
   \<and> length (noises (emit_random_noise rnd (roll_noises w))) \<le> 1
   \<and> old_noises (world_after_tick (tick cb rnd w)) = old_noises w @ noises w
   \<and> length (noises (world_after_tick (tick cb rnd w))) \<le> 1
   \<and> old_noises (add_noise w n) = old_noises w
   \<and> old_noises (emit_random_noise rnd w) = old_noises w
   \<and> old_noises (world_after (transmit_message w message)) = old_noises w
   \<and> old_noises (world_after (collision_check w)) = old_noises w
   \<and> old_noises (snd (capture_check w)) = old_noises w
   \<and> old_noises (snd (target_check w)) = old_noises w"
proof -
  have e: "length (noises (emit_random_noise rnd (roll_noises w))) \<le> 1"
    using noise_lists_emit(2) [of rnd "roll_noises w"] by (simp add: roll_noises_def)
  have m: "old_noises (world_after (transmit_message w message)) = old_noises w"
    using surroundings_transmit_message [of w message] by (simp add: surroundings_def)
  have c: "old_noises (world_after (collision_check w)) = old_noises w"
    using surroundings_collision_check [of w] by (simp add: surroundings_def)
  show ?thesis
    using e m c
    by (simp add: noise_lists_tick noise_lists_emit noise_lists_capture_check
        noise_lists_target_check)
      (simp add: roll_noises_def add_noise_def)
qed

lemma emit_quiet_3x3:
  "map_size (world_map w) = (3, 3) \<Longrightarrow> emit_random_noise quiet w = w"
  by (simp add: emit_random_noise_def quiet_def TIME_PER_TICK_def TICK_RATE_def Let_def)

theorem noise_rolls_into_history_witness:
  "old_noises (world_after_tick (tick idle quiet noisy_world)) =
     [NoiseEvent_init (0, 0), NoiseEvent_init (1, 1)]
   \<and> noises (roll_noises noisy_world) = []
   \<and> length (noises (world_after_tick (tick idle quiet noisy_world))) \<le> 1"
  using noise_rolls_into_history [of noisy_world quiet idle]
  by (simp add: noisy_world_def guard_world_def)

section \<open>Properties of the capture check\<close>

lemma target_state_is_captured [simp]:
  "target_state (a\<lparr>is_captured := b\<rparr>) = target_state a"
  by (simp add: target_state_def)

lemma capture_pairs_target_state:
  "target_state (fst (capture_pairs gs ID a)) = target_state a"
proof (induction gs arbitrary: a)
  case Nil
  then show ?case by simp
next
  case (Cons g gs)
  obtain ID_guard guard where g: "g = (ID_guard, guard)" by (cases g)
  show ?case using Cons [of a] Cons [of "a\<lparr>is_captured := True\<rparr>"]
    by (simp add: g split_beta)
qed

lemma capture_pairs_events:
  "snd (capture_pairs gs ID a) =
     map (\<lambda>g. OnCaptured ID)
       (filter (\<lambda>g. vlength (vsub (location a) (location (snd g))) < 0.5) gs)"
proof (induction gs arbitrary: a)
  case Nil
  then show ?case by simp
next
  case (Cons g gs)
  obtain ID_guard guard where g: "g = (ID_guard, guard)" by (cases g)
  show ?case using Cons [of a] Cons [of "a\<lparr>is_captured := True\<rparr>"]
    by (simp add: g split_beta)
qed

lemma capture_loop_target_state:
  "map (\<lambda>p. (fst p, target_state (snd p))) (fst (capture_loop gs ags)) =
   map (\<lambda>p. (fst p, target_state (snd p))) ags"
proof (induction ags)
  case Nil
  then show ?case by simp
next
  case (Cons p ags)
  obtain ID a where p: "p = (ID, a)" by (cases p)
  show ?case using Cons
    by (simp add: p split_beta capture_pairs_target_state)
qed

lemma capture_loop_no_intruders:
  "\<forall>x\<in>set ags. cls (snd x) \<noteq> IntruderAgent \<Longrightarrow> capture_loop gs ags = (ags, [])"
proof (induction ags)
  case Nil
  then show ?case by simp
next
  case (Cons p ags)
  obtain ID a where p: "p = (ID, a)" by (cases p)
  show ?case using Cons by (simp add: p)
qed

lemma intruders_empty:
  "intruders w = [] \<longleftrightarrow> (\<forall>x\<in>set (agents w). cls (snd x) \<noteq> IntruderAgent)"
  by (auto simp: intruders_def filter_empty_conv)

lemma capture_check_no_intruders:
  assumes "intruders w = []"
  shows "capture_check w = (True, w)"
proof -
  have "capture_loop (guards w) (agents w) = (agents w, [])"
    using assms by (simp add: capture_loop_no_intruders intruders_empty)
  moreover have "intruders (w\<lparr>agents := agents w, trace := trace w @ []\<rparr>) = []"
    using assms by (simp add: intruders_def)
  ultimately show ?thesis by (simp add: capture_check_def)
qed

section \<open>The classes of the agents\<close>

lemma no_intruders_set_agent:
  assumes "\<forall>x\<in>set (agents w). cls (snd x) \<noteq> IntruderAgent" and "cls agent \<noteq> IntruderAgent"
  shows "\<forall>x\<in>set (agents (set_agent ID agent w)). cls (snd x) \<noteq> IntruderAgent"
  using assms by (auto simp: set_agent_def split: if_splits)

lemma no_intruders_transmit_message:
  assumes "\<forall>x\<in>set (agents w). cls (snd x) \<noteq> IntruderAgent"
    and "transmit_message w message = Inr w'"
  shows "\<forall>x\<in>set (agents w'). cls (snd x) \<noteq> IntruderAgent"
proof -
  from assms(2) have "agents w' =
      map (\<lambda>(ID, a). if ID = msg_target message
                      then (ID, a\<lparr>message_queue_in := message_queue_in a @ [message]\<rparr>)
                      else (ID, a)) (agents w)"
    by (auto simp: transmit_message_def split: option.splits)
  then show ?thesis using assms(1) by (fastforce split: if_splits)
qed

lemma no_intruders_transmit_all:
  assumes "\<forall>x\<in>set (agents w). cls (snd x) \<noteq> IntruderAgent"
    and "transmit_all w ms = Inr w'"
  shows "\<forall>x\<in>set (agents w'). cls (snd x) \<noteq> IntruderAgent"
  using assms
proof (induction ms arbitrary: w)
  case Nil
  then show ?case by simp
next
  case (Cons message ms)
  from Cons.prems(2) obtain w1 where t: "transmit_message w message = Inr w1"
    and r: "transmit_all w1 ms = Inr w'"
    by (auto split: sum.splits)
  from no_intruders_transmit_message [OF Cons.prems(1) t] r Cons.IH show ?case by blast
qed

lemma no_intruders_agents_loop:
  assumes "\<forall>x\<in>set (agents w). cls (snd x) \<noteq> IntruderAgent"
    and "agents_loop cb IDs w = Inr w'"
  shows "\<forall>x\<in>set (agents w'). cls (snd x) \<noteq> IntruderAgent"
  using assms
proof (induction IDs arbitrary: w)
  case Nil
  then show ?case by simp
next
  case (Cons ID IDs)
  show ?case
  proof (cases "map_of (agents w) ID")
    case None
    then show ?thesis using Cons by simp
  next
    case (Some agent)
    obtain agent' outbox raised
      where t: "agent_tick cb ID (visible_agents (agents w) ID agent) agent = (agent', outbox, raised)"
      by (metis prod_cases3)
    let ?w1 = "set_agent ID (agent'\<lparr>cls := cls agent\<rparr>) w"
    have "(ID, agent) \<in> set (agents w)" using Some by (rule map_of_SomeD)
    then have "cls agent \<noteq> IntruderAgent" using Cons.prems(1) by auto
    then have n1: "\<forall>x\<in>set (agents ?w1). cls (snd x) \<noteq> IntruderAgent"
      by (intro no_intruders_set_agent [OF Cons.prems(1)]) simp
    from Cons.prems(2) Some t obtain w2 where a: "transmit_all ?w1 outbox = Inr w2"
      and r: "agents_loop cb IDs w2 = Inr w'"
      by (auto simp: Let_def split: sum.splits option.splits)
    from no_intruders_transmit_all [OF n1 a] r Cons.IH show ?thesis by blast
  qed
qed

lemma no_intruders_noise_loop:
  assumes "\<forall>x\<in>set (agents w). cls (snd x) \<noteq> IntruderAgent"
    and "noise_loop cb IDs w = Inr w'"
  shows "\<forall>x\<in>set (agents w'). cls (snd x) \<noteq> IntruderAgent"
  using assms
proof (induction IDs arbitrary: w)
  case Nil
  then show ?case by simp
next
  case (Cons ID IDs)
  show ?case
  proof (cases "map_of (agents w) ID")
    case None
    then show ?thesis using Cons by simp
  next
    case (Some agent)
    obtain agent' raised
      where t: "agent_on_noise cb ID (noises w) agent = (agent', raised)"
      by (cases "agent_on_noise cb ID (noises w) agent")
    let ?w1 = "set_agent ID (agent'\<lparr>cls := cls agent\<rparr>) w"
    have "(ID, agent) \<in> set (agents w)" using Some by (rule map_of_SomeD)
    then have "cls agent \<noteq> IntruderAgent" using Cons.prems(1) by auto
    then have n1: "\<forall>x\<in>set (agents ?w1). cls (snd x) \<noteq> IntruderAgent"
      by (intro no_intruders_set_agent [OF Cons.prems(1)]) simp
    from Cons.prems(2) Some t have r: "noise_loop cb IDs ?w1 = Inr w'"
      by (auto simp: Let_def split: option.splits)
    from n1 r Cons.IH show ?thesis by blast
  qed
qed

lemma corner_step_cls:
  "corner_step m x y a = Inr a' \<Longrightarrow> cls a' = cls a"
  by (auto simp: corner_step_def split: sum.splits option.splits)

lemma collide_agent_cls:
  assumes "collide_agent m a = Inr a'"
  shows "cls a' = cls a"
proof -
  let ?c = "clamp_bounds m a"
  let ?w = "agent_width ?c"
  let ?x = "fst (location ?c)"
  let ?y = "snd (location ?c)"
  have e: "cls (edge_push m ?c) = cls a"
    by (simp add: edge_push_def clamp_bounds_def Let_def)
  from assms obtain a2 where s1: "corner_step m (?x - ?w / 2) (?y - ?w / 2) (edge_push m ?c) = Inr a2"
    by (cases "corner_step m (?x - ?w / 2) (?y - ?w / 2) (edge_push m ?c)")
      (simp_all add: collide_agent_def Let_def)
  from assms s1 obtain a3 where s2: "corner_step m (?x - ?w / 2) (?y + ?w / 2) a2 = Inr a3"
    by (cases "corner_step m (?x - ?w / 2) (?y + ?w / 2) a2")
      (simp_all add: collide_agent_def Let_def)
  from assms s1 s2 obtain a4 where s3: "corner_step m (?x + ?w / 2) (?y - ?w / 2) a3 = Inr a4"
    by (cases "corner_step m (?x + ?w / 2) (?y - ?w / 2) a3")
      (simp_all add: collide_agent_def Let_def)
  from assms s1 s2 s3 have s4: "corner_step m (?x + ?w / 2) (?y + ?w / 2) a4 = Inr a'"
    by (simp add: collide_agent_def Let_def)
  show ?thesis
    using corner_step_cls [OF s1] corner_step_cls [OF s2] corner_step_cls [OF s3]
      corner_step_cls [OF s4] e by simp
qed

lemma no_intruders_collision_loop:
  assumes "\<forall>x\<in>set ags. cls (snd x) \<noteq> IntruderAgent"
    and "collision_loop m ags = Inr ags'"
  shows "\<forall>x\<in>set ags'. cls (snd x) \<noteq> IntruderAgent"
  using assms
proof (induction ags arbitrary: ags')
  case Nil
  then show ?case by simp
next
  case (Cons p ags)
  obtain ID a where p: "p = (ID, a)" by (cases p)
  from Cons.prems(2) p obtain a' rest' where c: "collide_agent m a = Inr a'"
    and r: "collision_loop m ags = Inr rest'" and e: "ags' = (ID, a') # rest'"
    by (auto split: sum.splits prod.splits)
  have "cls a' \<noteq> IntruderAgent"
    using collide_agent_cls [OF c] Cons.prems(1) p by simp
  moreover have "\<forall>x\<in>set rest'. cls (snd x) \<noteq> IntruderAgent"
    using Cons.IH [OF _ r] Cons.prems(1) by simp
  ultimately show ?case using e by simp
qed

lemma no_intruders_tick_run:
  assumes "intruders w = []" and "tick_run cb rnd w = Inr w'"
  shows "intruders w' = []"
proof -
  let ?w2 = "emit_random_noise rnd (roll_noises w)"
  have a2: "agents ?w2 = agents w"
    by (simp add: emit_random_noise_def roll_noises_def add_noise_def Let_def)
  have n2: "\<forall>x\<in>set (agents ?w2). cls (snd x) \<noteq> IntruderAgent"
    using assms(1) a2 by (simp add: intruders_empty)
  from assms(2) obtain w3 w4 where l: "agents_loop cb (map fst (agents ?w2)) ?w2 = Inr w3"
    and c: "collision_check w3 = Inr w4" and n: "noise_loop cb (map fst (agents w4)) w4 = Inr w'"
    by (auto simp: tick_run_def Let_def split: sum.splits)
  have n3: "\<forall>x\<in>set (agents w3). cls (snd x) \<noteq> IntruderAgent"
    using no_intruders_agents_loop [OF n2 l] .
  from c obtain ags where cl: "collision_loop (world_map w3) (agents w3) = Inr ags"
    and w4: "w4 = w3\<lparr>agents := ags\<rparr>"
    by (auto simp: collision_check_def split: sum.splits prod.splits)
  have n4: "\<forall>x\<in>set (agents w4). cls (snd x) \<noteq> IntruderAgent"
    using no_intruders_collision_loop [OF n3 cl] w4 by simp
  show ?thesis
    using no_intruders_noise_loop [OF n4 n] by (simp add: intruders_empty)
qed

section \<open>The outcome of a tick\<close>

lemma collision_check_clear:
  assumes "\<forall>(ID, agent)\<in>set (agents w). in_bounds (world_map w) (location agent)
             \<and> probes_clear (world_map w) agent"
  shows "collision_check w = Inr w"
  using collision_loop_clear [OF assms] by (simp add: collision_check_def)

lemma tick_run_idle_clear:
  assumes "distinct (map fst (agents w))"
    and "\<forall>(ID, agent)\<in>set (agents w). in_bounds (world_map w) (location agent)
             \<and> probes_clear (world_map w) agent"
    and "map_size (world_map w) = (3, 3)" and "noises w = []"
  shows "tick_run idle quiet w = Inr w"
proof -
  have r: "roll_noises w = w" using assms(4) by (simp add: roll_noises_def)
  show ?thesis
    using assms by (simp add: tick_run_idle r emit_quiet_3x3 collision_check_clear)
qed

text \<open>
  C10, amended. In a world without intruders, a tick whose steps before the capture
  check (the agents' turns, collision resolution, the noise handlers) raise no exception
  returns true and prints that the guards won, whatever the guards, the map and the
  noise lists are: the capture check finds all of no intruders captured. A tick in which
  one of these steps raises ends with that exception.
\<close>

theorem no_intruders_guards_win:
  assumes "intruders w = []"
  shows "tick cb rnd w =
           (case tick_run cb rnd w of
              Inl e \<Rightarrow> Inl e
            | Inr w' \<Rightarrow> Inr (True, print ''The guards won!'' w'))"
proof (cases "tick_run cb rnd w")
  case (Inl e)
  then show ?thesis by (simp add: tick_def)
next
  case (Inr w')
  have "intruders w' = []"
    using assms Inr by (rule no_intruders_tick_run)
  then have "capture_check w' = (True, w')"
    by (rule capture_check_no_intruders)
  then show ?thesis
    using Inr by (simp add: tick_def tick_checks_def)
qed

lemma open_map_fields:
  "width open_map = 3" "height open_map = 3" "is_wall open_map x y = False"
  "map_size open_map = (3, 3)"
  by (simp_all add: open_map_def)

lemma intruder0_fields:
  "location intruder0 = (1.2, 1)" "agent_width intruder0 = 0.5" "cls intruder0 = IntruderAgent"
  "target intruder0 = (1.2, 1)" "is_captured intruder0 = False"
  "ticks_in_target intruder0 = 0" "ticks_since_target intruder0 = 0"
  "times_visited_target intruder0 = 0" "reached_target intruder0 = False"
  by (simp_all add: intruder0_def)

lemma clear_on_open_map:
  "probes_clear open_map agent"
  by (simp add: probes_clear_def cell_is_wall_def open_map_fields Let_def)

lemma tick_run_guard_world: "tick_run idle quiet guard_world = Inr guard_world"
  by (rule tick_run_idle_clear)
    (simp_all add: guard_world_def clear_on_open_map in_bounds_def open_map_fields guard0_fields)

theorem no_intruders_guards_win_witness:
  "intruders guard_world = []
   \<and> tick idle quiet guard_world = Inr (True, print ''The guards won!'' guard_world)"
proof -
  have i: "intruders guard_world = []"
    by (simp add: intruders_def guard_world_def guard0_fields)
  show ?thesis
    using no_intruders_guards_win [OF i, of idle quiet] i
    by (simp add: tick_run_guard_world)
qed

subsection \<open>A tick that ends with the capture of the last intruder\<close>

lemma capture_check_time_ticks:
  "time_ticks (snd (capture_check w)) = time_ticks w"
  by (simp add: capture_check_def split_beta Let_def)

lemma capture_check_target_state:
  "map (\<lambda>p. (fst p, target_state (snd p))) (agents (snd (capture_check w))) =
   map (\<lambda>p. (fst p, target_state (snd p))) (agents w)"
  by (simp add: capture_check_def split_beta Let_def capture_loop_target_state)

lemma time_ticks_tick_run:
  assumes "tick_run cb rnd w = Inr w'"
  shows "time_ticks w' = time_ticks w"
proof -
  have "surroundings w' = surroundings (emit_random_noise rnd (roll_noises w))"
    using surroundings_tick_run [of cb rnd w] assms by (simp add: world_after_def)
  then show ?thesis
    by (simp add: surroundings_def emit_random_noise_def roll_noises_def add_noise_def Let_def
        split: if_splits)
qed

lemma tick_run_caught_world: "tick_run idle quiet caught_world = Inr caught_world"
  by (rule tick_run_idle_clear)
    (simp_all add: caught_world_def clear_on_open_map in_bounds_def open_map_fields
      guard0_fields intruder0_fields)

lemma capture_check_caught_world:
  "capture_check caught_world =
     (True, caught_world\<lparr>agents := [(1, guard0), (2, intruder0\<lparr>is_captured := True\<rparr>)],
                         trace := [OnCaptured 2]\<rparr>)"
  by (simp add: capture_check_def guards_def intruders_def caught_world_def
      guard0_fields intruder0_fields vsub_def)

lemma tick_caught_world: "tick idle quiet caught_world = Inr (True, caught_after)"
  by (simp add: tick_def tick_run_caught_world tick_checks_def capture_check_caught_world
      print_def)
    (simp add: caught_after_def caught_world_def)

text \<open>
  C1, as stated, fails: on the tick in which its last intruder is captured while sitting
  on its target, the intruder's \<open>ticks_in_target\<close> stays 0; the target check, had it run,
  would have made it 1.
\<close>

theorem capture_skips_target_check_counterexample:
  "tick idle quiet caught_world = Inr (True, caught_after)
   \<and> map_option ticks_in_target (map_of (agents caught_after) 2) = Some 0
   \<and> map_option ticks_in_target (map_of (agents (snd (target_check caught_after))) 2) = Some 1"
  by (simp add: tick_caught_world)
    (simp add: caught_after_def target_check_def target_intruder_def target_wins_def
      target_counters_def guard0_fields intruder0_fields TIME_PER_TICK_def TICK_RATE_def
      Let_def)

text \<open>
  C1, amended. On a tick in which the capture check finds all intruders captured, the
  tick returns true and prints that the guards won, straight after the capture check:
  the target check is not run and has no part in the outcome, the per-intruder target
  counters and \<open>reached_target\<close> are left as they were before the capture check, and the
  tick counter is not incremented.
\<close>

theorem capture_ends_the_tick:
  assumes "tick_run cb rnd w = Inr w'" and "fst (capture_check w')"
  shows "tick cb rnd w = Inr (True, print ''The guards won!'' (snd (capture_check w')))
         \<and> map (\<lambda>p. (fst p, target_state (snd p)))
               (agents (print ''The guards won!'' (snd (capture_check w')))) =
             map (\<lambda>p. (fst p, target_state (snd p))) (agents w')
         \<and> time_ticks (print ''The guards won!'' (snd (capture_check w'))) = time_ticks w"
proof -
  have t: "tick cb rnd w = Inr (True, print ''The guards won!'' (snd (capture_check w')))"
    using assms by (simp add: tick_def tick_checks_def split_beta)
  have a: "agents (print ''The guards won!'' (snd (capture_check w'))) =
      agents (snd (capture_check w'))"
    by (simp add: print_def)
  have c: "time_ticks (print ''The guards won!'' (snd (capture_check w'))) = time_ticks w"
    using time_ticks_tick_run [OF assms(1)] by (simp add: print_def capture_check_time_ticks)
  show ?thesis
    using t c by (simp add: a capture_check_target_state)
qed

theorem capture_ends_the_tick_witness:
  "fst (capture_check caught_world)
   \<and> tick idle quiet caught_world =
       Inr (True, print ''The guards won!'' (snd (capture_check caught_world)))
   \<and> time_ticks (print ''The guards won!'' (snd (capture_check caught_world))) = 0"
proof -
  have c: "fst (capture_check caught_world)"
    by (simp add: capture_check_caught_world)
  show ?thesis
    using capture_ends_the_tick [OF tick_run_caught_world c] c
    by (simp add: caught_world_def)
qed

subsection \<open>An intruder within reach of two guards\<close>

lemma guard1_fields:
  "location guard1 = (1.4, 1)" "cls guard1 = GuardAgent"
  by (simp_all add: guard1_def guard0_def)

lemma intruder1_fields:
  "location intruder1 = (2.5, 1)" "cls intruder1 = IntruderAgent"
  "is_captured intruder1 = False"
  by (simp_all add: intruder1_def intruder0_def)

lemma capture_check_pincer_world:
  "capture_check pincer_world =
     (False, pincer_world\<lparr>agents := [(1, guard0), (2, intruder0\<lparr>is_captured := True\<rparr>),
                                        (3, guard1), (4, intruder1)],
                          trace := [OnCaptured 2, OnCaptured 2]\<rparr>)"
  by (simp add: capture_check_def guards_def intruders_def pincer_world_def
      guard0_fields intruder0_fields guard1_fields intruder1_fields vsub_def)

lemma capture_check_pincer_world_again:
  "capture_check (pincer_world\<lparr>agents := [(1, guard0), (2, intruder0\<lparr>is_captured := True\<rparr>),
                                        (3, guard1), (4, intruder1)],
                          trace := [OnCaptured 2, OnCaptured 2]\<rparr>) =
     (False, pincer_world\<lparr>agents := [(1, guard0), (2, intruder0\<lparr>is_captured := True\<rparr>),
                                        (3, guard1), (4, intruder1)],
                          trace := [OnCaptured 2, OnCaptured 2, OnCaptured 2, OnCaptured 2]\<rparr>)"
  by (simp add: capture_check_def guards_def intruders_def pincer_world_def
      guard0_fields intruder0_fields guard1_fields intruder1_fields vsub_def)

text \<open>
  C2 does not hold of the code. With two guards within 0.5 of an intruder, one capture
  check invokes \<open>on_captured\<close> twice; and as another intruder is still free the
  simulation goes on, and the next capture check invokes it twice again, on an intruder
  that is captured already.
\<close>

theorem on_captured_invoked_again:
  "trace (snd (capture_check pincer_world)) = [OnCaptured 2, OnCaptured 2]
   \<and> \<not> fst (capture_check pincer_world)
   \<and> map_option is_captured (map_of (agents (snd (capture_check pincer_world))) 2) = Some True
   \<and> trace (snd (capture_check (snd (capture_check pincer_world)))) =
       [OnCaptured 2, OnCaptured 2, OnCaptured 2, OnCaptured 2]"
  by (simp add: capture_check_pincer_world capture_check_pincer_world_again)

section \<open>Positions after collision resolution\<close>

lemma collision_check_wall_world:
  "collision_check wall_world =
     Inr (wall_world\<lparr>agents := [(1, embedded_guard\<lparr>location := (3.25, 1.5), has_collided := True\<rparr>)]\<rparr>)"
  by (simp add: collision_check_def wall_world_def collide_embedded)

lemma tick_run_wall_world:
  "tick_run idle quiet wall_world =
     Inr (wall_world\<lparr>agents := [(1, embedded_guard\<lparr>location := (3.25, 1.5), has_collided := True\<rparr>)]\<rparr>)"
proof -
  have r: "roll_noises wall_world = wall_world"
    by (simp add: roll_noises_def wall_world_def)
  have e: "emit_random_noise quiet wall_world = wall_world"
    by (rule emit_quiet_3x3) (simp add: wall_world_def wall_map_def)
  have d: "distinct (map fst (agents wall_world))"
    by (simp add: wall_world_def)
  show ?thesis
    by (simp add: tick_run_idle [OF d] r e collision_check_wall_world)
qed

text \<open>
  C3 does not hold of the code. A guard whose centre is inside the wall cell at the
  right edge of the map is within the bounds before the tick and at x = 3.25, beyond the
  width 3, when the tick returns: the corner snap puts it there after the bounds check,
  and nothing checks the bounds again.
\<close>

theorem pushed_off_the_map:
  "in_bounds wall_map (location embedded_guard)
   \<and> tick idle quiet wall_world =
       Inr (True,
            wall_world\<lparr>agents := [(1, embedded_guard\<lparr>location := (3.25, 1.5), has_collided := True\<rparr>)],
                       trace := [Print ''The guards won!'']\<rparr>)
   \<and> \<not> in_bounds wall_map (3.25, 1.5)"
proof -
  let ?w = "wall_world\<lparr>agents := [(1, embedded_guard\<lparr>location := (3.25, 1.5), has_collided := True\<rparr>)]\<rparr>"
  have "intruders ?w = []"
    by (simp add: intruders_def embedded_guard_fields)
  then have "capture_check ?w = (True, ?w)"
    by (rule capture_check_no_intruders)
  then have "tick idle quiet wall_world = Inr (True, print ''The guards won!'' ?w)"
    by (simp add: tick_def tick_run_wall_world tick_checks_def)
  then show ?thesis
    by (simp add: print_def wall_world_def in_bounds_def embedded_guard_fields wall_map_fields)
qed

lemma clamp_bounds_twice:
  assumes "1 \<le> width m" and "1 \<le> height m"
  shows "clamp_bounds m (clamp_bounds m agent) = clamp_bounds m agent"
  using clamp_bounds_range [OF assms] by (rule clamp_bounds_in_bounds)

lemma collide_agent_clamped:
  assumes "1 \<le> width m" and "1 \<le> height m"
  shows "collide_agent m (clamp_bounds m agent) = collide_agent m agent"
  by (simp add: collide_agent_def clamp_bounds_twice [OF assms])

lemma capture_pairs_location:
  "location (fst (capture_pairs gs ID a)) = location a"
proof (induction gs arbitrary: a)
  case Nil
  then show ?case by simp
next
  case (Cons g gs)
  obtain ID_guard guard where g: "g = (ID_guard, guard)" by (cases g)
  show ?case using Cons [of a] Cons [of "a\<lparr>is_captured := True\<rparr>"]
    by (simp add: g split_beta)
qed

lemma capture_loop_location:
  "map (\<lambda>p. (fst p, location (snd p))) (fst (capture_loop gs ags)) =
   map (\<lambda>p. (fst p, location (snd p))) ags"
proof (induction ags)
  case Nil
  then show ?case by simp
next
  case (Cons p ags)
  obtain ID a where p: "p = (ID, a)" by (cases p)
  show ?case using Cons
    by (simp add: p split_beta capture_pairs_location)
qed

lemma target_intruder_location:
  "location (fst (target_intruder ID a)) = location a"
  by (simp add: target_intruder_def target_wins_def target_counters_def Let_def)

lemma target_loop_location:
  "map (\<lambda>p. (fst p, location (snd p))) (fst (target_loop ags)) =
   map (\<lambda>p. (fst p, location (snd p))) ags"
proof (induction ags)
  case Nil
  then show ?case by simp
next
  case (Cons p ags)
  obtain ID a where p: "p = (ID, a)" by (cases p)
  show ?case using Cons
    by (simp add: p split_beta target_intruder_location)
qed

lemma tick_checks_location:
  "map (\<lambda>p. (fst p, location (snd p))) (agents (snd (tick_checks w))) =
   map (\<lambda>p. (fst p, location (snd p))) (agents w)"
  by (simp add: tick_checks_def capture_check_def target_check_def print_def split_beta Let_def
      capture_loop_location target_loop_location)

text \<open>
  What the bounds check does achieve: on a map of at least one cell it puts the position
  within \<open>[0, width) \<times> [0, height)\<close> before the push vector and the corner snap are
  applied; an agent none of whose eight probes hits a wall is left there, and the capture
  and target checks that end the tick move no agent.
\<close>

lemma position_after_bounds_check:
  assumes "1 \<le> width m" and "1 \<le> height m"
  shows "in_bounds m (location (clamp_bounds m agent))
         \<and> (probes_clear m (clamp_bounds m agent) \<longrightarrow>
              collide_agent m agent = Inr (clamp_bounds m agent))
         \<and> map (\<lambda>p. (fst p, location (snd p))) (agents (snd (tick_checks w))) =
             map (\<lambda>p. (fst p, location (snd p))) (agents w)"
proof -
  have b: "in_bounds m (location (clamp_bounds m agent))"
    using assms by (rule clamp_bounds_range)
  have "collide_agent m agent = Inr (clamp_bounds m agent)"
    if "probes_clear m (clamp_bounds m agent)"
    using collide_agent_clear [OF b that] collide_agent_clamped [OF assms] by simp
  then show ?thesis using b by (simp add: tick_checks_location)
qed

lemma stray_guard_fields:
  "location stray_guard = (3.7, - 1)" "agent_width stray_guard = 0.5"
  by (simp_all add: stray_guard_def guard0_def)

lemma position_after_bounds_check_example:
  "location (clamp_bounds wall_map stray_guard) = (2.99, 0)
   \<and> in_bounds wall_map (location (clamp_bounds wall_map stray_guard))
   \<and> collide_agent wall_map stray_guard = Inr (clamp_bounds wall_map stray_guard)"
proof -
  have l: "location (clamp_bounds wall_map stray_guard) = (2.99, 0)"
    and w: "agent_width (clamp_bounds wall_map stray_guard) = 0.5"
    by (simp_all add: clamp_bounds_def stray_guard_fields wall_map_fields Let_def)
  have p: "probes_clear wall_map (clamp_bounds wall_map stray_guard)"
    by (simp add: probes_clear_def cell_is_wall_def l w wall_map_fields Let_def)
  have d: "(1::int) \<le> width wall_map" "(1::int) \<le> height wall_map"
    by (simp_all add: wall_map_fields)
  show ?thesis
    using position_after_bounds_check [OF d, of stray_guard] p l by simp
qed

section \<open>Messages to an agent that does not exist\<close>

lemma transmit_message_unknown:
  assumes "msg_target message \<notin> fst ` set (agents w)"
  shows "transmit_message w message = Inl (KeyError, w)"
proof -
  have "map_of (agents w) (msg_target message) = None"
    using assms by (simp add: map_of_eq_None_iff)
  then show ?thesis by (simp add: transmit_message_def)
qed

lemma transmit_message_known:
  assumes "map_of (agents w) (msg_target message) = Some agent"
  shows "\<exists>w'. transmit_message w message = Inr w'
           \<and> map_of (agents w') (msg_target message) =
               Some (agent\<lparr>message_queue_in := message_queue_in agent @ [message]\<rparr>)"
proof -
  have "map_of (map (\<lambda>(ID, a). if ID = k then (ID, a\<lparr>message_queue_in := message_queue_in a @ [message]\<rparr>)
                                 else (ID, a)) ags) k =
        map_option (\<lambda>a. a\<lparr>message_queue_in := message_queue_in a @ [message]\<rparr>) (map_of ags k)"
    for ags :: "(AgentID \<times> Agent) list" and k
    by (induction ags) auto
  then show ?thesis using assms by (simp add: transmit_message_def)
qed

lemma lone_world_target_unknown:
  "msg_target (turned 2) \<notin> fst ` set (agents lone_world)"
  by (simp add: turned_def lone_world_def)

lemma tick_run_lone_world:
  "tick_run shouter quiet lone_world = Inl (KeyError, lone_world)"
proof -
  have r: "roll_noises lone_world = lone_world"
    by (simp add: roll_noises_def lone_world_def)
  have e: "emit_random_noise quiet lone_world = lone_world"
    by (rule emit_quiet_3x3) (simp add: lone_world_def open_map_def)
  have m: "map_of (agents lone_world) 2 = Some guard0" and k: "map fst (agents lone_world) = [2]"
    by (simp_all add: lone_world_def)
  have s: "set_agent 2 guard0 lone_world = lone_world"
    using set_agent_same [of lone_world 2 guard0] m k by simp
  have t: "transmit_message lone_world (turned 2) = Inl (KeyError, lone_world)"
    using lone_world_target_unknown by (rule transmit_message_unknown)
  have "agents_loop shouter [2] lone_world = Inl (KeyError, lone_world)"
    by (simp add: m shouter_def s t)
  then show ?thesis
    by (simp add: tick_run_def r e k)
qed

text \<open>
  C7, as stated, fails: a message to an agent ID that is no key of the agent map makes
  \<open>transmit_message\<close> raise \<open>KeyError\<close>, and a tick in which an agent sends such
  a message ends with that exception.
\<close>

theorem unknown_target_aborts_counterexample:
  "transmit_message lone_world (turned 2) = Inl (KeyError, lone_world)
   \<and> tick shouter quiet lone_world = Inl (KeyError, lone_world)"
  using transmit_message_unknown [OF lone_world_target_unknown]
  by (simp add: tick_def tick_run_lone_world)

text \<open>
  C7, amended. For every message whose target is no key of the world's agent map,
  transmitting it raises \<open>KeyError\<close>: nothing is logged or dropped by the world, the
  exception goes to the caller, and with it ends the transmission of the messages that
  follow. The world is left as it was: no agent's inbound message queue is changed.
\<close>

theorem unknown_target_raises:
  assumes "msg_target message \<notin> fst ` set (agents w)"
  shows "transmit_message w message = Inl (KeyError, w)
         \<and> transmit_all w (message # ms) = Inl (KeyError, w)"
  using transmit_message_unknown [OF assms] by simp

theorem unknown_target_raises_witness:
  "msg_target (turned 2) \<notin> fst ` set (agents lone_world)
   \<and> transmit_message lone_world (turned 2) = Inl (KeyError, lone_world)
   \<and> map_option message_queue_in (map_of (agents lone_world) 2) = Some []"
  using unknown_target_raises [OF lone_world_target_unknown, of "[]"] lone_world_target_unknown
  by (simp add: lone_world_def guard0_def)

section \<open>Properties of vision\<close>

lemma vlength_vertical [simp]: "vlength (0, y) = \<bar>y\<bar>"
  by (simp add: vlength_def)

lemma fmod_range:
  assumes "0 < b"
  shows "0 \<le> fmod a b" and "fmod a b < b"
proof -
  have l: "of_int \<lfloor>a / b\<rfloor> \<le> a / b" and u: "a / b < of_int \<lfloor>a / b\<rfloor> + 1"
    by linarith+
  have "b * of_int \<lfloor>a / b\<rfloor> \<le> a"
    using assms l pos_le_divide_eq [of b "of_int \<lfloor>a / b\<rfloor>" a] by (simp add: mult.commute)
  then show "0 \<le> fmod a b" by (simp add: fmod_def)
  have "a < b * (of_int \<lfloor>a / b\<rfloor> + 1)"
    using assms u pos_divide_less_eq [of b a "of_int \<lfloor>a / b\<rfloor> + 1"] by (simp add: mult.commute)
  then show "fmod a b < b" by (simp add: fmod_def algebra_simps)
qed

lemma angle_diff_bearing:
  "angle_diff agent d = \<bar>fmod (bearing d - heading agent + 180) 360 - 180\<bar>"
  by (simp add: angle_diff_def bearing_def algebra_simps)

lemma angle_diff_range:
  "0 \<le> angle_diff agent d" "angle_diff agent d \<le> 180"
proof -
  show "0 \<le> angle_diff agent d" by (simp add: angle_diff_def)
  have "0 \<le> fmod (bearing d - heading agent + 180) 360"
    and "fmod (bearing d - heading agent + 180) 360 < 360"
    by (simp_all add: fmod_range)
  then show "angle_diff agent d \<le> 180"
    by (simp add: angle_diff_bearing abs_le_iff)
qed

lemma angle_diff_normalized:
  assumes "- 180 \<le> \<delta>" and "\<delta> \<le> 180"
    and "\<delta> = bearing d - heading agent + 360 * of_int k"
  shows "angle_diff agent d = \<bar>\<delta>\<bar>"
proof -
  define raw where "raw = bearing d - heading agent"
  define n where "n = \<lfloor>(raw + 180) / 360\<rfloor>"
  define \<nu> where "\<nu> = fmod (raw + 180) 360 - 180"
  have nu: "\<nu> = raw - 360 * of_int n"
    by (simp add: \<nu>_def fmod_def n_def)
  have lo: "- 180 \<le> \<nu>" and hi: "\<nu> < 180"
    using fmod_range [of 360 "raw + 180"] by (simp_all add: \<nu>_def)
  have a: "angle_diff agent d = \<bar>\<nu>\<bar>"
    by (simp add: angle_diff_bearing \<nu>_def raw_def)
  have diff: "\<delta> - \<nu> = 360 * of_int (k + n)"
    using assms(3) nu by (simp add: raw_def)
  have d1: "- 360 < \<delta> - \<nu>" and d2: "\<delta> - \<nu> \<le> 360"
    using assms(1,2) lo hi by linarith+
  define t :: real where "t = of_int (k + n)"
  have dt: "\<delta> - \<nu> = 360 * t"
    using diff by (simp only: t_def)
  have r1: "- 1 < t" using d1 dt by simp
  have r2: "t \<le> 1" using d2 dt by simp
  have "- 1 < k + n" using r1 unfolding t_def by linarith
  moreover have "k + n \<le> 1" using r2 unfolding t_def by linarith
  ultimately consider "k + n = 0" | "k + n = 1" by linarith
  then show ?thesis
  proof cases
    case 1
    then have "\<delta> = \<nu>" using diff by simp
    then show ?thesis using a by simp
  next
    case 2
    then have "\<delta> = \<nu> + 360" using diff by simp
    then have "\<delta> = 180" and "\<nu> = - 180"
      using assms(2) lo by linarith+
    then show ?thesis using a by simp
  qed
qed

lemma visible_agents_member:
  "AgentView other_ID other_agent \<in> set (visible_agents ags ID agent) \<longleftrightarrow>
     (other_ID, other_agent) \<in> set ags \<and> other_ID \<noteq> ID \<and> sees agent other_agent"
  by (auto simp: visible_agents_def)

text \<open>
  C4. An agent is in an observer's list of visible agents if and only if it is another
  agent of the world and either its distance is at most the observer's \<open>view_range\<close> and
  the angle between the observer's heading and the bearing to it is at most the
  observer's \<open>view_angle\<close>, or its distance is at most 1.5; all bounds are inclusive.
  The angle the code compares is the absolute value of the signed bearing difference
  normalized into \<open>[-180, 180]\<close>, whichever normalization is taken, and lies in
  \<open>[0, 180]\<close>.
\<close>

theorem visible_iff_range_and_cone:
  "(AgentView other_ID other_agent \<in> set (visible_agents ags ID agent) \<longleftrightarrow>
      (other_ID, other_agent) \<in> set ags \<and> other_ID \<noteq> ID
      \<and> ((vlength (vsub (location other_agent) (location agent)) \<le> view_range agent
           \<and> angle_diff agent (vsub (location other_agent) (location agent)) \<le> view_angle agent)
          \<or> vlength (vsub (location other_agent) (location agent)) \<le> 1.5))
   \<and> (- 180 \<le> \<delta> \<and> \<delta> \<le> 180 \<and> \<delta> = bearing d - heading agent + 360 * of_int k \<longrightarrow>
        angle_diff agent d = \<bar>\<delta>\<bar>)
   \<and> 0 \<le> angle_diff agent d \<and> angle_diff agent d \<le> 180"
  using angle_diff_normalized [of \<delta> d agent k]
  by (simp add: visible_agents_member sees_def Let_def angle_diff_range)

lemma degrees_half_pi: "degrees (pi / 2) = 90" "degrees (- (pi / 2)) = - 90"
  by (simp_all add: degrees_def)

lemma bearing_vertical:
  "0 < y \<Longrightarrow> bearing (0, y) = 0" "y < 0 \<Longrightarrow> bearing (0, y) = 180"
  by (simp_all add: bearing_def atan2_def degrees_half_pi)

lemma watcher_fields:
  "location watcher = (1, 2)" "heading watcher = 0" "view_range watcher = 6"
  "view_angle watcher = 45"
  by (simp_all add: watcher_def guard0_def)

lemma others_location:
  "location ahead = (1, 2.9)" "location behind_near = (1, 0.6)" "location behind_far = (1, 0.4)"
  by (simp_all add: ahead_def behind_near_def behind_far_def intruder0_def)

theorem visible_iff_range_and_cone_witness:
  "AgentView 2 ahead \<in> set (visible_agents crowd 1 watcher)
   \<and> AgentView 3 behind_near \<in> set (visible_agents crowd 1 watcher)
   \<and> AgentView 4 behind_far \<notin> set (visible_agents crowd 1 watcher)"
proof -
  have a: "angle_diff watcher (0, 9 / 10) = 0"
    using visible_iff_range_and_cone [of 2 ahead crowd 1 watcher 0 "(0, 9 / 10)" 0]
    by (simp add: bearing_vertical watcher_fields)
  have f: "angle_diff watcher (0, - (8 / 5)) = 180"
    using visible_iff_range_and_cone [of 4 behind_far crowd 1 watcher 180 "(0, - (8 / 5))" 0]
    by (simp add: bearing_vertical watcher_fields)
  show ?thesis
    using visible_iff_range_and_cone [of 2 ahead crowd 1 watcher 0 "(0, 0)" 0]
      visible_iff_range_and_cone [of 3 behind_near crowd 1 watcher 0 "(0, 0)" 0]
      visible_iff_range_and_cone [of 4 behind_far crowd 1 watcher 0 "(0, 0)" 0]
    by (simp add: crowd_def watcher_fields others_location vsub_def a f)
qed

section \<open>Ticks that raise before the capture check\<close>

lemma centre_guard_fields:
  "location centre_guard = (2.5, 1.5)" "agent_width centre_guard = 0.5"
  "has_collided centre_guard = False" "cls centre_guard = GuardAgent"
  by (simp_all add: centre_guard_def guard0_def)

lemma clamp_centre: "clamp_bounds wall_map centre_guard = centre_guard"
  by (rule clamp_bounds_in_bounds) (simp add: in_bounds_def centre_guard_fields wall_map_fields)

lemma push_centre:
  "edge_push wall_map centre_guard = centre_guard\<lparr>has_collided := True\<rparr>"
proof -
  have "edge_push wall_map centre_guard =
      centre_guard\<lparr>location := location centre_guard, has_collided := True\<rparr>"
    by (simp add: edge_push_def collision_point_hit collision_point_miss wall_map_fields
        centre_guard_fields Let_def vadd_def del: not_None_eq)
  then show ?thesis by simp
qed

lemma corner_centre:
  "corner_step wall_map (2.5 - 0.5 / 2) (1.5 - 0.5 / 2) (centre_guard\<lparr>has_collided := True\<rparr>)
   = Inl (ZeroDivisionError, centre_guard\<lparr>has_collided := True\<rparr>)"
  by (simp add: corner_step_def circle_collision_def as_length_def wall_map_fields
      centre_guard_fields Let_def vadd_def vsub_def)

lemma collide_centre:
  "collide_agent wall_map centre_guard =
     Inl (ZeroDivisionError, centre_guard\<lparr>has_collided := True\<rparr>)"
  unfolding collide_agent_def clamp_centre Let_def push_centre centre_guard_fields fst_conv snd_conv
  by (simp only: corner_centre sum.case)

lemma tick_centre_world:
  "tick idle quiet centre_world =
     Inl (ZeroDivisionError,
          centre_world\<lparr>agents := [(1, centre_guard\<lparr>has_collided := True\<rparr>)]\<rparr>)"
proof -
  have r: "roll_noises centre_world = centre_world"
    by (simp add: roll_noises_def centre_world_def)
  have e: "emit_random_noise quiet centre_world = centre_world"
    by (rule emit_quiet_3x3) (simp add: centre_world_def wall_map_def)
  have d: "distinct (map fst (agents centre_world))"
    by (simp add: centre_world_def)
  have c: "collision_check centre_world =
      Inl (ZeroDivisionError,
           centre_world\<lparr>agents := [(1, centre_guard\<lparr>has_collided := True\<rparr>)]\<rparr>)"
    by (simp add: collision_check_def centre_world_def collide_centre)
  show ?thesis
    by (simp add: tick_def tick_run_idle [OF d] r e c)
qed

text \<open>
  C10, as stated, fails: in a world without intruders a tick need not return. A guard on
  the centre of a wall cell makes collision resolution raise \<open>ZeroDivisionError\<close>, and a
  guard that sends a message to an agent that does not exist makes the tick end with
  \<open>KeyError\<close>; neither tick reaches the capture check.
\<close>

theorem no_intruders_tick_raises_counterexample:
  "intruders centre_world = []
   \<and> tick idle quiet centre_world =
       Inl (ZeroDivisionError,
            centre_world\<lparr>agents := [(1, centre_guard\<lparr>has_collided := True\<rparr>)]\<rparr>)
   \<and> intruders lone_world = []
   \<and> tick shouter quiet lone_world = Inl (KeyError, lone_world)"
proof -
  have l: "tick shouter quiet lone_world = Inl (KeyError, lone_world)"
    by (simp add: tick_def tick_run_lone_world)
  have i: "intruders centre_world = []" "intruders lone_world = []"
    by (simp_all add: intruders_def centre_world_def lone_world_def centre_guard_fields
        guard0_fields)
  show ?thesis
    using l i by (simp add: tick_centre_world)
qed

end
